theory Spec2Isabelle
  imports Main "HOL-Library.Word"
begin

unbundle bit_operations_syntax

section \<open>Values of the Python program\<close>

text \<open>
  The program is \<^verbatim>\<open>capture.py\<close>: the class \<^verbatim>\<open>BLEPacketCapture\<close> with the methods
  \<^verbatim>\<open>parse_advertisement_data\<close>, \<^verbatim>\<open>scan_and_capture\<close> (whose work is done by the
  nested \<^verbatim>\<open>detection_callback\<close>), \<^verbatim>\<open>get_hci_commands\<close> and \<^verbatim>\<open>replay_packet\<close>.

  A Python \<^verbatim>\<open>str\<close> is a sequence of code points, so \<^verbatim>\<open>len\<close> counts code points
  and \<^verbatim>\<open>encode('utf-8')\<close> is a function that can fail. A \<^verbatim>\<open>bytes\<close> object is a
  sequence of 8-bit values. Python integers are unbounded.
\<close>

type_synonym str = "nat list"
type_synonym byte = "8 word"
type_synonym bytes = "byte list"

text \<open>A string literal of the source, as code points.\<close>

definition lit :: "string \<Rightarrow> str" where
  "lit s = map of_char s"

text \<open>
  The exceptions that can leave \<^verbatim>\<open>parse_advertisement_data\<close>: the \<^verbatim>\<open>encode\<close> of the
  device name (line 30) and the \<^verbatim>\<open>struct.pack\<close> of a company identifier (line 74)
  stand outside every \<^verbatim>\<open>try\<close>.
\<close>

datatype error = UnicodeEncodeError | StructError

text \<open>
  The scanner's arguments of the callback: \<^verbatim>\<open>device\<close> (a \<^verbatim>\<open>BLEDevice\<close>) and
  \<^verbatim>\<open>advertisement_data\<close>. The dictionaries are association lists in iteration
  order, which is the order the loops visit them in.
\<close>

record device =
  address :: str
  name :: "str option"

record advertisement_data =
  rssi :: int
  service_uuids :: "str list"
  service_data :: "(str \<times> bytes) list"
  manufacturer_data :: "(int \<times> bytes) list"

text \<open>The dictionary \<^verbatim>\<open>packet_info\<close> (lines 13 to 20), with its six keys.\<close>

record packet_info =
  timestamp :: str
  address :: str
  name :: str
  rssi :: int
  raw_data :: "int list"
  hci_cmd :: str

text \<open>The object: its only attribute is the list \<^verbatim>\<open>captured_packets\<close> (line 9).\<close>

record BLEPacketCapture =
  captured_packets :: "packet_info list"


section \<open>Library functions the program calls\<close>

subsection \<open>\<^verbatim>\<open>str.encode('utf-8')\<close>\<close>

text \<open>
  One code point gives one to four bytes; a surrogate (U+D800 to U+DFFF) has no
  encoding and raises \<^verbatim>\<open>UnicodeEncodeError\<close>. A \<^verbatim>\<open>str\<close> holds code points below
  \<^verbatim>\<open>0x110000\<close> only.
\<close>

definition utf8_char :: "nat \<Rightarrow> error + bytes" where
  "utf8_char c =
    (if c < 0x80 then Inr [of_nat c]
     else if c < 0x800 then
       Inr [of_nat (0xC0 + c div 0x40), of_nat (0x80 + c mod 0x40)]
     else if c < 0x10000 then
       (if 0xD800 \<le> c \<and> c < 0xE000 then Inl UnicodeEncodeError
        else Inr [of_nat (0xE0 + c div 0x1000), of_nat (0x80 + c div 0x40 mod 0x40),
                  of_nat (0x80 + c mod 0x40)])
     else
       Inr [of_nat (0xF0 + c div 0x40000), of_nat (0x80 + c div 0x1000 mod 0x40),
            of_nat (0x80 + c div 0x40 mod 0x40), of_nat (0x80 + c mod 0x40)])"

fun encode_utf8 :: "str \<Rightarrow> error + bytes" where
  "encode_utf8 [] = Inr []"
| "encode_utf8 (c # cs) =
    (case utf8_char c of
       Inl e \<Rightarrow> Inl e
     | Inr b \<Rightarrow> (case encode_utf8 cs of Inl e \<Rightarrow> Inl e | Inr bs \<Rightarrow> Inr (b @ bs)))"

subsection \<open>\<^verbatim>\<open>str.split\<close>\<close>

text \<open>
  \<^verbatim>\<open>s.split('-')[0]\<close> is the part of \<^verbatim>\<open>s\<close> before its first dash, the whole of
  \<^verbatim>\<open>s\<close> when it has none.
\<close>

definition split_first :: "nat \<Rightarrow> str \<Rightarrow> str" where
  "split_first sep s = takeWhile (\<lambda>c. c \<noteq> sep) s"

text \<open>
  The characters \<^verbatim>\<open>str.isspace\<close> holds for. \<^verbatim>\<open>s.split()\<close> cuts \<^verbatim>\<open>s\<close> at every run
  of them and returns the pieces between, none of them empty.
\<close>

definition unicode_space :: "nat \<Rightarrow> bool" where
  "unicode_space c \<longleftrightarrow>
     (0x09 \<le> c \<and> c \<le> 0x0D) \<or> (0x1C \<le> c \<and> c \<le> 0x20) \<or> c = 0x85 \<or> c = 0xA0 \<or>
     c = 0x1680 \<or> (0x2000 \<le> c \<and> c \<le> 0x200A) \<or> c = 0x2028 \<or> c = 0x2029 \<or>
     c = 0x202F \<or> c = 0x205F \<or> c = 0x3000"

fun split_ws_acc :: "str \<Rightarrow> str \<Rightarrow> str list" where
  "split_ws_acc w [] = (if w = [] then [] else [w])"
| "split_ws_acc w (c # cs) =
    (if unicode_space c then (if w = [] then split_ws_acc [] cs else w # split_ws_acc [] cs)
     else split_ws_acc (w @ [c]) cs)"

definition split_ws :: "str \<Rightarrow> str list" where
  "split_ws s = split_ws_acc [] s"

subsection \<open>\<^verbatim>\<open>' '.join\<close>\<close>

fun join :: "str \<Rightarrow> str list \<Rightarrow> str" where
  "join sep [] = []"
| "join sep [x] = x"
| "join sep (x # y # ys) = x @ sep @ join sep (y # ys)"

subsection \<open>\<^verbatim>\<open>int(s, 16)\<close>\<close>

text \<open>
  The interpreter first maps the string to ASCII: a character below 127 stays, any
  other white space becomes a blank, any other decimal digit becomes its ASCII digit,
  and anything else is an invalid literal. Decimal digits come in runs of ten
  consecutive code points with the values 0 to 9; \<open>decimal_runs\<close> lists where the runs
  outside ASCII start (the character database of the interpreter, Unicode 14).
\<close>

definition decimal_runs :: "nat list" where
  "decimal_runs =
    [0x660, 0x6F0, 0x7C0, 0x966, 0x9E6, 0xA66, 0xAE6, 0xB66, 0xBE6, 0xC66, 0xCE6, 0xD66,
     0xDE6, 0xE50, 0xED0, 0xF20, 0x1040, 0x1090, 0x17E0, 0x1810, 0x1946, 0x19D0, 0x1A80,
     0x1A90, 0x1B50, 0x1BB0, 0x1C40, 0x1C50, 0xA620, 0xA8D0, 0xA900, 0xA9D0, 0xA9F0,
     0xAA50, 0xABF0, 0xFF10, 0x104A0, 0x10D30, 0x11066, 0x110F0, 0x11136, 0x111D0,
     0x112F0, 0x11450, 0x114D0, 0x11650, 0x116C0, 0x11730, 0x118E0, 0x11950, 0x11C50,
     0x11D50, 0x11DA0, 0x16A60, 0x16AC0, 0x16B50, 0x1D7CE, 0x1D7D8, 0x1D7E2, 0x1D7EC,
     0x1D7F6, 0x1E140, 0x1E2F0, 0x1E950, 0x1FBF0]"

definition to_ascii :: "nat \<Rightarrow> nat option" where
  "to_ascii c =
    (if c < 127 then Some c
     else if unicode_space c then Some 0x20
     else (case filter (\<lambda>b. b \<le> c \<and> c < b + 10) decimal_runs of
             [] \<Rightarrow> None
           | b # _ \<Rightarrow> Some (0x30 + (c - b))))"

fun to_ascii_all :: "str \<Rightarrow> str option" where
  "to_ascii_all [] = Some []"
| "to_ascii_all (c # cs) =
    (case to_ascii c of
       None \<Rightarrow> None
     | Some a \<Rightarrow> (case to_ascii_all cs of None \<Rightarrow> None | Some as \<Rightarrow> Some (a # as)))"

text \<open>White space of the C locale, which the number parser skips at both ends.\<close>

definition ascii_space :: "nat \<Rightarrow> bool" where
  "ascii_space c \<longleftrightarrow> c = 0x20 \<or> (0x09 \<le> c \<and> c \<le> 0x0D)"

text \<open>The value of a digit in base 16, in either case.\<close>

definition hex_value :: "nat \<Rightarrow> int option" where
  "hex_value c =
    (if 0x30 \<le> c \<and> c \<le> 0x39 then Some (int c - 0x30)
     else if 0x61 \<le> c \<and> c \<le> 0x66 then Some (int c - 0x61 + 10)
     else if 0x41 \<le> c \<and> c \<le> 0x46 then Some (int c - 0x41 + 10)
     else None)"

text \<open>
  The digit loop: digits, with single underscores allowed between two of them. It
  returns the value read, the number of digits and the rest of the text, or nothing
  when an underscore follows an underscore or ends the digits.
\<close>

fun scan_digits :: "bool \<Rightarrow> int \<Rightarrow> nat \<Rightarrow> str \<Rightarrow> (int \<times> nat \<times> str) option" where
  "scan_digits prev acc n [] = (if prev then None else Some (acc, n, []))"
| "scan_digits prev acc n (c # cs) =
    (if c = 0x5F then (if prev then None else scan_digits True acc n cs)
     else (case hex_value c of
             Some d \<Rightarrow> scan_digits False (acc * 16 + d) (Suc n) cs
           | None \<Rightarrow> (if prev then None else Some (acc, n, c # cs))))"

text \<open>An optional sign: the factor and the rest.\<close>

fun take_sign :: "str \<Rightarrow> int \<times> str" where
  "take_sign [] = (1, [])"
| "take_sign (c # cs) =
    (if c = 0x2B then (1, cs) else if c = 0x2D then (- 1, cs) else (1, c # cs))"

text \<open>An optional prefix \<^verbatim>\<open>0x\<close> or \<^verbatim>\<open>0X\<close>, and one underscore after it.\<close>

fun take_prefix :: "str \<Rightarrow> str" where
  "take_prefix (a # b # cs) =
    (if a = 0x30 \<and> (b = 0x78 \<or> b = 0x58)
     then (case cs of [] \<Rightarrow> [] | c # ds \<Rightarrow> if c = 0x5F then ds else c # ds)
     else a # b # cs)"
| "take_prefix cs = cs"

text \<open>\<^verbatim>\<open>int(s, 16)\<close>; \<open>None\<close> is the \<^verbatim>\<open>ValueError\<close>.\<close>

definition int_base_16 :: "str \<Rightarrow> int option" where
  "int_base_16 s =
    (case to_ascii_all s of
       None \<Rightarrow> None
     | Some t \<Rightarrow>
        (let (sign, u) = take_sign (dropWhile ascii_space t);
             v = take_prefix u
         in if v \<noteq> [] \<and> hd v = 0x5F then None
            else (case scan_digits False 0 0 v of
                    None \<Rightarrow> None
                  | Some (acc, n, rest) \<Rightarrow>
                      if n = 0 then None
                      else if dropWhile ascii_space rest \<noteq> [] then None
                      else Some (sign * acc))))"

subsection \<open>\<^verbatim>\<open>struct.pack('<H', v)\<close>\<close>

text \<open>
  Two bytes, the low one first; a value outside 0 to 65535 raises \<^verbatim>\<open>struct.error\<close>.
\<close>

definition struct_pack_H :: "int \<Rightarrow> error + bytes" where
  "struct_pack_H v =
    (if 0 \<le> v \<and> v \<le> 0xFFFF then Inr [of_int (v AND 0xFF), of_int (drop_bit 8 v)]
     else Inl StructError)"

subsection \<open>The format \<^verbatim>\<open>02X\<close>\<close>

text \<open>
  Upper-case hexadecimal, filled with zeros to two characters; a negative number
  has a minus sign before its digits.
\<close>

definition hex_digit :: "nat \<Rightarrow> nat" where
  "hex_digit d = (if d < 10 then 0x30 + d else 0x41 + (d - 10))"

fun hex_digits :: "nat \<Rightarrow> str" where
  "hex_digits n = (if n < 16 then [hex_digit n] else hex_digits (n div 16) @ [hex_digit (n mod 16)])"

declare hex_digits.simps [simp del]

definition format_02X :: "int \<Rightarrow> str" where
  "format_02X b =
    (if b < 0 then 0x2D # hex_digits (nat (- b))
     else replicate (2 - length (hex_digits (nat b))) 0x30 @ hex_digits (nat b))"


section \<open>\<^verbatim>\<open>parse_advertisement_data\<close>\<close>

text \<open>
  The method builds the list \<^verbatim>\<open>ad_data\<close> in five steps, each of which appends to it.
  Every step below takes the list as it stands and returns it as the step leaves it.
\<close>

text \<open>Step 1, line 26: the flags.\<close>

definition add_flags :: "int list \<Rightarrow> int list" where
  "add_flags ad_data = ad_data @ [0x02, 0x01, 0x06]"

text \<open>
  Step 2, lines 29 to 34: the local name. \<^verbatim>\<open>if device.name\<close> is false for \<^verbatim>\<open>None\<close> and
  for the empty string.
\<close>

definition add_local_name :: "str option \<Rightarrow> int list \<Rightarrow> error + int list" where
  "add_local_name nm ad_data =
    (case nm of
       None \<Rightarrow> Inr ad_data
     | Some n \<Rightarrow>
        if n = [] then Inr ad_data
        else (case encode_utf8 n of
                Inl e \<Rightarrow> Inl e
              | Inr b \<Rightarrow>
                 (let name_bytes = take 29 b
                  in if length name_bytes > 0
                     then Inr (ad_data @ [int (length name_bytes) + 1, 0x09] @ map uint name_bytes)
                     else Inr ad_data)))"

text \<open>
  Step 3, lines 37 to 51: one turn of the loop over \<^verbatim>\<open>service_uuids\<close>. The bare
  \<^verbatim>\<open>except\<close> swallows every exception of the turn and keeps what the turn had
  appended before it.
\<close>

definition add_service_uuid :: "int list \<Rightarrow> str \<Rightarrow> int list" where
  "add_service_uuid ad_data uuid_str =
    (if length uuid_str = 36 then
       (case int_base_16 (split_first 0x2D uuid_str) of
          None \<Rightarrow> ad_data
        | Some n \<Rightarrow>
           (let uuid_16bit = n AND 0xFFFF;
                ad_data1 = ad_data @ [0x03, 0x03]
            in case struct_pack_H uuid_16bit of
                 Inl e \<Rightarrow> ad_data1
               | Inr b \<Rightarrow> ad_data1 @ map uint b))
     else
       (case int_base_16 uuid_str of
          None \<Rightarrow> ad_data
        | Some n \<Rightarrow>
           (let uuid_val = n AND 0xFFFF;
                ad_data1 = ad_data @ [0x03, 0x03]
            in case struct_pack_H uuid_val of
                 Inl e \<Rightarrow> ad_data1
               | Inr b \<Rightarrow> ad_data1 @ map uint b)))"

definition add_service_uuids :: "str list \<Rightarrow> int list \<Rightarrow> int list" where
  "add_service_uuids uuids ad_data = foldl add_service_uuid ad_data uuids"

text \<open>Step 4, lines 54 to 65: one turn of the loop over \<^verbatim>\<open>service_data.items()\<close>.\<close>

definition add_service_data_item :: "int list \<Rightarrow> str \<times> bytes \<Rightarrow> int list" where
  "add_service_data_item ad_data item =
    (case item of (uuid_str, data) \<Rightarrow>
      (case int_base_16 (split_first 0x2D uuid_str) of
         None \<Rightarrow> ad_data
       | Some n \<Rightarrow>
          (let uuid_16bit = n AND 0xFFFF;
               service_data_len = 2 + int (length data) + 1
           in if service_data_len \<le> 31 then
                (let ad_data1 = ad_data @ [service_data_len, 0x16]
                 in case struct_pack_H uuid_16bit of
                      Inl e \<Rightarrow> ad_data1
                    | Inr b \<Rightarrow> ad_data1 @ map uint b @ map uint data)
              else ad_data)))"

definition add_service_data :: "(str \<times> bytes) list \<Rightarrow> int list \<Rightarrow> int list" where
  "add_service_data items ad_data = foldl add_service_data_item ad_data items"

text \<open>
  Step 5, lines 68 to 75: the loop over \<^verbatim>\<open>manufacturer_data.items()\<close>. Nothing
  catches the \<^verbatim>\<open>struct.error\<close> here: it ends the method.
\<close>

definition add_manufacturer_data_item :: "int list \<Rightarrow> int \<times> bytes \<Rightarrow> error + int list" where
  "add_manufacturer_data_item ad_data item =
    (case item of (company_id, data) \<Rightarrow>
      (let manu_data_len = 2 + int (length data) + 1
       in if manu_data_len \<le> 31 then
            (case struct_pack_H company_id of
               Inl e \<Rightarrow> Inl e
             | Inr b \<Rightarrow> Inr (ad_data @ [manu_data_len, 0xFF] @ map uint b @ map uint data))
          else Inr ad_data))"

fun add_manufacturer_data :: "(int \<times> bytes) list \<Rightarrow> int list \<Rightarrow> error + int list" where
  "add_manufacturer_data [] ad_data = Inr ad_data"
| "add_manufacturer_data (item # items) ad_data =
    (case add_manufacturer_data_item ad_data item of
       Inl e \<Rightarrow> Inl e
     | Inr ad_data1 \<Rightarrow> add_manufacturer_data items ad_data1)"

text \<open>Lines 23 to 75 together: \<^verbatim>\<open>ad_data\<close> before the cut to 31 bytes.\<close>

definition build_ad_data :: "device \<Rightarrow> advertisement_data \<Rightarrow> error + int list" where
  "build_ad_data dev adv =
    (case add_local_name (device.name dev) (add_flags []) of
       Inl e \<Rightarrow> Inl e
     | Inr ad_data2 \<Rightarrow>
        add_manufacturer_data (manufacturer_data adv)
          (add_service_data (service_data adv)
            (add_service_uuids (service_uuids adv) ad_data2)))"

text \<open>Lines 78 and 79.\<close>

definition limit_31 :: "int list \<Rightarrow> int list" where
  "limit_31 ad_data = (if length ad_data > 31 then take 31 ad_data else ad_data)"

text \<open>
  Lines 83 to 88: the command for a list \<^verbatim>\<open>ad_data\<close>. A negative count of a list
  repetition gives the empty list, as the subtraction of natural numbers does here.
\<close>

definition hci_params :: "int list \<Rightarrow> str list" where
  "hci_params ad_data =
    (let data_length = int (length ad_data);
         ad_data_padded = ad_data @ replicate (31 - length ad_data) 0x00
     in format_02X data_length # map format_02X ad_data_padded)"

definition hci_cmd_of :: "int list \<Rightarrow> str" where
  "hci_cmd_of ad_data =
     lit ''sudo hcitool -i hci0 cmd 0x08 0x0008 '' @ join (lit '' '') (hci_params ad_data)"

text \<open>
  Lines 82 to 91: \<^verbatim>\<open>if ad_data\<close> holds for a list that is not empty; only then are
  the keys \<^verbatim>\<open>raw_data\<close> and \<^verbatim>\<open>hci_cmd\<close> of the packet set.
\<close>

definition generate_command :: "int list \<Rightarrow> packet_info \<Rightarrow> packet_info" where
  "generate_command ad_data info =
    (if ad_data \<noteq> [] then info\<lparr>raw_data := ad_data, hci_cmd := hci_cmd_of ad_data\<rparr>
     else info)"

text \<open>
  The method. \<open>now\<close> is the text \<^verbatim>\<open>datetime.now().strftime(...)\<close> returns at the call.
  The name stored is \<^verbatim>\<open>device.name or 'Unknown'\<close>, and \<^verbatim>\<open>or\<close> takes its second
  operand for \<^verbatim>\<open>None\<close> and for the empty string.
\<close>

definition parse_advertisement_data :: "str \<Rightarrow> device \<Rightarrow> advertisement_data \<Rightarrow> error + packet_info" where
  "parse_advertisement_data now dev adv =
    (let info = \<lparr>timestamp = now,
                 address = device.address dev,
                 name = (case device.name dev of
                           None \<Rightarrow> lit ''Unknown''
                         | Some n \<Rightarrow> if n = [] then lit ''Unknown'' else n),
                 rssi = advertisement_data.rssi adv,
                 raw_data = [],
                 hci_cmd = []\<rparr>
     in case build_ad_data dev adv of
          Inl e \<Rightarrow> Inl e
        | Inr ad_data \<Rightarrow> Inr (generate_command (limit_31 ad_data) info))"


section \<open>\<^verbatim>\<open>detection_callback\<close>\<close>

text \<open>
  The generator expression of lines 110 and 111 with \<^verbatim>\<open>next(..., None)\<close>: the first
  stored packet with the address and the raw data of the new one, given by its
  position in the list.
\<close>

fun find_existing :: "packet_info \<Rightarrow> packet_info list \<Rightarrow> nat option" where
  "find_existing packet [] = None"
| "find_existing packet (p # ps) =
    (if address p = address packet \<and> raw_data p = raw_data packet then Some 0
     else map_option Suc (find_existing packet ps))"

text \<open>
  Lines 102 to 105: the two filters. \<open>target_names\<close> and \<open>target_addresses\<close> are
  the arguments of \<^verbatim>\<open>scan_and_capture\<close>; \<^verbatim>\<open>None\<close> and an empty list both switch a
  filter off. A device without a name is in no list of names.
\<close>

definition filtered_out :: "str list option \<Rightarrow> str list option \<Rightarrow> device \<Rightarrow> bool" where
  "filtered_out target_names target_addresses dev \<longleftrightarrow>
     (case target_names of
        None \<Rightarrow> False
      | Some ns \<Rightarrow> ns \<noteq> [] \<and> device.name dev \<notin> set (map Some ns)) \<or>
     (case target_addresses of
        None \<Rightarrow> False
      | Some as \<Rightarrow> as \<noteq> [] \<and> device.address dev \<notin> set as)"

text \<open>
  The callback, lines 100 to 119, on the object \<open>self\<close>. An exception of the parser
  leaves the callback. What the callback prints is not part of the state.
\<close>

definition detection_callback ::
  "str list option \<Rightarrow> str list option \<Rightarrow> str \<Rightarrow> BLEPacketCapture \<Rightarrow> device \<Rightarrow> advertisement_data
     \<Rightarrow> error + BLEPacketCapture" where
  "detection_callback target_names target_addresses now self dev adv =
    (if filtered_out target_names target_addresses dev then Inr self
     else (case parse_advertisement_data now dev adv of
             Inl e \<Rightarrow> Inl e
           | Inr packet \<Rightarrow>
              (case find_existing packet (captured_packets self) of
                 Some i \<Rightarrow>
                   Inr (self\<lparr>captured_packets :=
                          (captured_packets self)
                            [i := (captured_packets self ! i)
                                    \<lparr>timestamp := timestamp packet, rssi := rssi packet\<rparr>]\<rparr>)
               | None \<Rightarrow>
                   Inr (self\<lparr>captured_packets := captured_packets self @ [packet]\<rparr>))))"


section \<open>\<^verbatim>\<open>get_hci_commands\<close> and \<^verbatim>\<open>replay_packet\<close>\<close>

text \<open>Lines 159 to 169: name, address and command of every packet that has a command.\<close>

definition get_hci_commands :: "BLEPacketCapture \<Rightarrow> (str \<times> str \<times> str) list" where
  "get_hci_commands self =
     map (\<lambda>packet. (name packet, address packet, hci_cmd packet))
       (filter (\<lambda>packet. hci_cmd packet \<noteq> []) (captured_packets self))"

text \<open>
  What \<^verbatim>\<open>subprocess.run\<close> does with a command: it completes with a return code and
  an error text, or it raises.
\<close>

datatype run_result = Completed int str | Raised str

text \<open>
  The five ways through \<^verbatim>\<open>replay_packet\<close>, each of which prints its own message:
  the command succeeded (line 185), it failed (line 187), it could not be run
  (line 189), the packet has no command (line 191), the index is invalid (line 193).
\<close>

datatype outcome = Success | ExecutionFailed str | LaunchError str | NoCommand | IndexOutOfRange

text \<open>
  Lines 171 to 193. \<open>run\<close> stands for \<^verbatim>\<open>subprocess.run\<close>. The result is the object
  after the call, the commands handed to \<open>run\<close>, and the way taken.
\<close>

definition replay_packet ::
  "(str list \<Rightarrow> run_result) \<Rightarrow> BLEPacketCapture \<Rightarrow> int
     \<Rightarrow> BLEPacketCapture \<times> str list list \<times> outcome" where
  "replay_packet run self index =
    (if 0 \<le> index \<and> index < int (length (captured_packets self)) then
       (let packet = captured_packets self ! nat index
        in if hci_cmd packet \<noteq> [] then
             (let cmd = split_ws (hci_cmd packet)
              in case run cmd of
                   Completed returncode stderr \<Rightarrow>
                     if returncode = 0 then (self, [cmd], Success)
                     else (self, [cmd], ExecutionFailed stderr)
                 | Raised e \<Rightarrow> (self, [cmd], LaunchError e))
           else (self, [], NoCommand))
     else (self, [], IndexOutOfRange))"


section \<open>The lists a capture can hold\<close>

text \<open>
  \<^verbatim>\<open>__init__\<close> (line 9) starts with the empty list, and nothing but the callback
  changes it: the objects a capture can come to are those reached from the first by
  calls of the callback that return.
\<close>

inductive reachable :: "BLEPacketCapture \<Rightarrow> bool" where
  reachable_init: "reachable \<lparr>captured_packets = []\<rparr>"
| reachable_step:
    "reachable self \<Longrightarrow>
     detection_callback target_names target_addresses now self dev adv = Inr self' \<Longrightarrow>
     reachable self'"

text \<open>
  For the proofs only: a list of bytes that is empty or has at least two items, the
  second of them not the type byte 09 of a local name.
\<close>

definition no_name_type :: "int list \<Rightarrow> bool" where
  "no_name_type xs \<longleftrightarrow> length xs \<noteq> 1 \<and> (2 \<le> length xs \<longrightarrow> xs ! 1 \<noteq> 0x09)"


section \<open>Example observations\<close>

text \<open>
  Inputs on which the theorems below are tried: a device named "Test" and a device
  without a name, an advertisement with no data, the UUID of the battery service,
  and the packets the method makes of them.
\<close>

abbreviation noon :: str where
  "noon \<equiv> lit ''2024-05-01 12:00:00''"

abbreviation test_device :: device where
  "test_device \<equiv> \<lparr>device.address = lit ''AA:BB:CC:DD:EE:FF'', device.name = Some (lit ''Test'')\<rparr>"

abbreviation nameless_device :: device where
  "nameless_device \<equiv> \<lparr>device.address = lit ''11:22:33:44:55:66'', device.name = None\<rparr>"

abbreviation plain_advertisement :: "int \<Rightarrow> advertisement_data" where
  "plain_advertisement r \<equiv>
     \<lparr>advertisement_data.rssi = r, service_uuids = [], service_data = [],
       manufacturer_data = []\<rparr>"

abbreviation battery_uuid :: str where
  "battery_uuid \<equiv> lit ''0000180f-0000-1000-8000-00805f9b34fb''"

abbreviation test_raw_data :: "int list" where
  "test_raw_data \<equiv> [0x02, 0x01, 0x06, 0x05, 0x09, 0x54, 0x65, 0x73, 0x74]"

abbreviation test_command :: str where
  "test_command \<equiv> lit ''sudo hcitool -i hci0 cmd 0x08 0x0008 09 02 01 06 05 09 54 65 73 74 00 00 00 00 00 00 00 00 00 00 00 00 00 00 00 00 00 00 00 00 00 00''"

abbreviation test_packet :: "str \<Rightarrow> int \<Rightarrow> packet_info" where
  "test_packet t r \<equiv>
     \<lparr>timestamp = t, address = lit ''AA:BB:CC:DD:EE:FF'', name = lit ''Test'', rssi = r,
       raw_data = test_raw_data, hci_cmd = test_command\<rparr>"

abbreviation flags_command :: str where
  "flags_command \<equiv> lit ''sudo hcitool -i hci0 cmd 0x08 0x0008 03 02 01 06 00 00 00 00 00 00 00 00 00 00 00 00 00 00 00 00 00 00 00 00 00 00 00 00 00 00 00 00''"

abbreviation nameless_packet :: "str \<Rightarrow> int \<Rightarrow> packet_info" where
  "nameless_packet t r \<equiv>
     \<lparr>timestamp = t, address = lit ''11:22:33:44:55:66'', name = lit ''Unknown'', rssi = r,
       raw_data = [0x02, 0x01, 0x06], hci_cmd = flags_command\<rparr>"

text \<open>The device without a name advertising the battery service.\<close>

abbreviation battery_advertisement :: "int \<Rightarrow> advertisement_data" where
  "battery_advertisement r \<equiv>
     \<lparr>advertisement_data.rssi = r, service_uuids = [battery_uuid], service_data = [],
       manufacturer_data = []\<rparr>"

abbreviation battery_packet :: "str \<Rightarrow> int \<Rightarrow> packet_info" where
  "battery_packet t r \<equiv>
     \<lparr>timestamp = t, address = lit ''11:22:33:44:55:66'', name = lit ''Unknown'', rssi = r,
       raw_data = [0x02, 0x01, 0x06, 0x03, 0x03, 0x0F, 0x18],
       hci_cmd = lit ''sudo hcitool -i hci0 cmd 0x08 0x0008 07 02 01 06 03 03 0F 18 00 00 00 00 00 00 00 00 00 00 00 00 00 00 00 00 00 00 00 00 00 00 00 00''\<rparr>"

text \<open>A device whose name has 29 bytes: the list built for it has 34.\<close>

abbreviation long_name_device :: device where
  "long_name_device \<equiv>
     \<lparr>device.address = lit ''AA:BB:CC:DD:EE:FF'',
       device.name = Some (lit ''Kitchen-Thermometer-Sensor-07'')\<rparr>"

abbreviation long_name_ad_data :: "int list" where
  "long_name_ad_data \<equiv>
     [0x02, 0x01, 0x06, 0x1E, 0x09, 0x4B, 0x69, 0x74, 0x63, 0x68, 0x65, 0x6E, 0x2D, 0x54, 0x68,
      0x65, 0x72, 0x6D, 0x6F, 0x6D, 0x65, 0x74, 0x65, 0x72, 0x2D, 0x53, 0x65, 0x6E, 0x73, 0x6F,
      0x72, 0x2D, 0x30, 0x37]"

abbreviation long_name_packet :: packet_info where
  "long_name_packet \<equiv>
     \<lparr>timestamp = noon, address = lit ''AA:BB:CC:DD:EE:FF'',
       name = lit ''Kitchen-Thermometer-Sensor-07'', rssi = - 42,
       raw_data = take 31 long_name_ad_data,
       hci_cmd = lit ''sudo hcitool -i hci0 cmd 0x08 0x0008 1F 02 01 06 1E 09 4B 69 74 63 68 65 6E 2D 54 68 65 72 6D 6F 6D 65 74 65 72 2D 53 65 6E 73 6F 72''\<rparr>"


section \<open>Facts about the library functions and the five steps\<close>

subsection \<open>Masks and \<^verbatim>\<open>struct.pack\<close>; the service UUIDs\<close>

lemma and_ffff: "(n::int) AND 0xFFFF = n mod 65536"
proof -
  have "n AND mask 16 = n mod 2 ^ 16"
    by (simp only: take_bit_eq_mask [symmetric] take_bit_eq_mod)
  moreover have "(mask 16 :: int) = 0xFFFF" by (simp add: mask_eq_exp_minus_1)
  ultimately show ?thesis by simp
qed

lemma and_ff: "(n::int) AND 0xFF = n mod 256"
proof -
  have "n AND mask 8 = n mod 2 ^ 8"
    by (simp only: take_bit_eq_mask [symmetric] take_bit_eq_mod)
  moreover have "(mask 8 :: int) = 0xFF" by (simp add: mask_eq_exp_minus_1)
  ultimately show ?thesis by simp
qed

lemma struct_pack_H_bytes:
  assumes "0 \<le> v" "v \<le> 0xFFFF"
  shows "\<exists>b. struct_pack_H v = Inr b \<and> map uint b = [v mod 256, v div 256]"
proof -
  have lo: "uint (of_int (v AND 0xFF) :: byte) = v mod 256"
    by (simp add: and_ff uint_word_of_int_eq take_bit_eq_mod)
  have "v div 256 < 256" using assms by simp
  moreover have "0 \<le> v div 256" using assms by simp
  ultimately have hi: "uint (of_int (drop_bit 8 v) :: byte) = v div 256"
    by (simp add: drop_bit_eq_div uint_word_of_int_eq take_bit_eq_mod)
  show ?thesis using assms lo hi by (simp add: struct_pack_H_def)
qed

lemma struct_pack_H_masked:
  "\<exists>b. struct_pack_H (n AND 0xFFFF) = Inr b \<and>
       map uint b = [(n AND 0xFFFF) mod 256, (n AND 0xFFFF) div 256]"
proof (rule struct_pack_H_bytes)
  show "0 \<le> n AND 0xFFFF" by (simp add: and_ffff)
  have "n mod 65536 < 65536" by simp
  then show "n AND 0xFFFF \<le> 0xFFFF" by (simp add: and_ffff)
qed

lemma add_service_uuid_36:
  assumes "length s = 36" "int_base_16 (split_first 0x2D s) = Some n"
  shows "add_service_uuid ad s = ad @ [0x03, 0x03, (n AND 0xFFFF) mod 256, (n AND 0xFFFF) div 256]"
  using assms struct_pack_H_masked [of n]
  by (auto simp: add_service_uuid_def Let_def)

lemma add_service_uuid_short:
  assumes "length s \<noteq> 36" "int_base_16 s = Some n"
  shows "add_service_uuid ad s = ad @ [0x03, 0x03, (n AND 0xFFFF) mod 256, (n AND 0xFFFF) div 256]"
  using assms struct_pack_H_masked [of n]
  by (auto simp: add_service_uuid_def Let_def)

lemma add_service_uuid_append: "add_service_uuid ad s = ad @ add_service_uuid [] s"
  using struct_pack_H_masked
  by (auto simp: add_service_uuid_def Let_def split: option.splits sum.splits)

lemma add_service_uuids_concat:
  "add_service_uuids uuids ad = ad @ concat (map (add_service_uuid []) uuids)"
  unfolding add_service_uuids_def
proof (induction uuids arbitrary: ad)
  case Nil
  show ?case by simp
next
  case (Cons u us)
  show ?case using Cons [of "add_service_uuid ad u"] add_service_uuid_append [of ad u] by simp
qed

subsection \<open>Service data and manufacturer data\<close>

lemma add_service_data_item_parsed:
  assumes "int_base_16 (split_first 0x2D u) = Some n"
  shows "add_service_data_item ad (u, d) =
           (if 2 + int (length d) + 1 \<le> 31
            then ad @ [2 + int (length d) + 1, 0x16, (n AND 0xFFFF) mod 256, (n AND 0xFFFF) div 256]
                    @ map uint d
            else ad)"
  using assms struct_pack_H_masked [of n]
  by (auto simp: add_service_data_item_def Let_def)

lemma add_service_data_item_unparsed:
  assumes "int_base_16 (split_first 0x2D u) = None"
  shows "add_service_data_item ad (u, d) = ad"
  using assms by (simp add: add_service_data_item_def)

lemma add_service_data_item_append:
  "add_service_data_item ad item = ad @ add_service_data_item [] item"
proof (cases item)
  case (Pair u d)
  show ?thesis
  proof (cases "int_base_16 (split_first 0x2D u)")
    case None
    then show ?thesis using Pair by (simp add: add_service_data_item_unparsed)
  next
    case (Some n)
    then show ?thesis using Pair by (simp add: add_service_data_item_parsed)
  qed
qed

lemma add_service_data_concat:
  "add_service_data items ad = ad @ concat (map (add_service_data_item []) items)"
  unfolding add_service_data_def
proof (induction items arbitrary: ad)
  case Nil
  show ?case by simp
next
  case (Cons i rest)
  show ?case
    using Cons [of "add_service_data_item ad i"] add_service_data_item_append [of ad i] by simp
qed

lemma add_manufacturer_data_item_ok:
  assumes "0 \<le> c" "c \<le> 0xFFFF"
  shows "add_manufacturer_data_item ad (c, d) =
           Inr (if 2 + int (length d) + 1 \<le> 31
                then ad @ [2 + int (length d) + 1, 0xFF, c mod 256, c div 256] @ map uint d
                else ad)"
  using struct_pack_H_bytes [OF assms]
  by (auto simp: add_manufacturer_data_item_def Let_def)

lemma add_manufacturer_data_item_long:
  assumes "\<not> 2 + int (length d) + 1 \<le> 31"
  shows "add_manufacturer_data_item ad (c, d) = Inr ad"
  using assms by (simp add: add_manufacturer_data_item_def Let_def)

lemma add_manufacturer_data_item_raises:
  assumes "2 + int (length d) + 1 \<le> 31" "\<not> (0 \<le> c \<and> c \<le> 0xFFFF)"
  shows "add_manufacturer_data_item ad (c, d) = Inl StructError"
  using assms by (auto simp: add_manufacturer_data_item_def Let_def struct_pack_H_def)

lemma add_manufacturer_data_item_append:
  "add_manufacturer_data_item ad item =
     (case add_manufacturer_data_item [] item of Inl e \<Rightarrow> Inl e | Inr el \<Rightarrow> Inr (ad @ el))"
  by (cases item) (auto simp: add_manufacturer_data_item_def Let_def split: sum.splits)

lemma add_manufacturer_data_append:
  "add_manufacturer_data items ad =
     (case add_manufacturer_data items [] of Inl e \<Rightarrow> Inl e | Inr els \<Rightarrow> Inr (ad @ els))"
proof (induction items arbitrary: ad)
  case Nil
  show ?case by simp
next
  case (Cons i rest)
  show ?case
  proof (cases "add_manufacturer_data_item [] i")
    case (Inl e)
    then show ?thesis using add_manufacturer_data_item_append [of ad i] by simp
  next
    case (Inr el)
    then have 1: "add_manufacturer_data_item ad i = Inr (ad @ el)"
      using add_manufacturer_data_item_append [of ad i] by simp
    show ?thesis
      using Inr 1 Cons [of "ad @ el"] Cons [of el]
      by (auto split: sum.splits)
  qed
qed

lemma add_manufacturer_data_returns_iff:
  "(\<exists>r. add_manufacturer_data items ad = Inr r) \<longleftrightarrow>
     (\<forall>(c, d) \<in> set items. 2 + int (length d) + 1 \<le> 31 \<longrightarrow> 0 \<le> c \<and> c \<le> 0xFFFF)"
proof (induction items arbitrary: ad)
  case Nil
  show ?case by simp
next
  case (Cons i rest)
  obtain c d where i: "i = (c, d)" by (cases i)
  show ?case
  proof (cases "2 + int (length d) + 1 \<le> 31")
    case False
    then show ?thesis using i Cons [of ad] by (simp add: add_manufacturer_data_item_long)
  next
    case True
    show ?thesis
    proof (cases "0 \<le> c \<and> c \<le> 0xFFFF")
      case True
      then show ?thesis
        using i Cons add_manufacturer_data_item_ok [of c ad d] by simp
    next
      case False
      then have "add_manufacturer_data (i # rest) ad = Inl StructError"
        using i True by (simp add: add_manufacturer_data_item_raises)
      moreover have "\<not> (\<forall>(c, d) \<in> set (i # rest).
          2 + int (length d) + 1 \<le> 31 \<longrightarrow> 0 \<le> c \<and> c \<le> 0xFFFF)"
        using i True False by auto
      ultimately show ?thesis by simp
    qed
  qed
qed

lemma add_manufacturer_data_concat:
  assumes "add_manufacturer_data items ad = Inr r"
  shows "\<exists>els. map (add_manufacturer_data_item []) items = map Inr els \<and> r = ad @ concat els"
  using assms
proof (induction items arbitrary: ad r)
  case Nil
  then show ?case by simp
next
  case (Cons i rest)
  from Cons.prems obtain a1 where a1: "add_manufacturer_data_item ad i = Inr a1"
    and r: "add_manufacturer_data rest a1 = Inr r"
    by (auto split: sum.splits)
  from a1 obtain el where el: "add_manufacturer_data_item [] i = Inr el" and a1_eq: "a1 = ad @ el"
    using add_manufacturer_data_item_append [of ad i] by (auto split: sum.splits)
  from Cons.IH [OF r] obtain els where
    els: "map (add_manufacturer_data_item []) rest = map Inr els" and r_eq: "r = a1 @ concat els"
    by blast
  have "map (add_manufacturer_data_item []) (i # rest) = map Inr (el # els)"
    using el els by simp
  moreover have "r = ad @ concat (el # els)" using r_eq a1_eq by simp
  ultimately show ?case by blast
qed

subsection \<open>The local name and the whole of \<^verbatim>\<open>ad_data\<close>\<close>

lemma utf8_char_nonempty: "utf8_char c = Inr b \<Longrightarrow> b \<noteq> []"
  by (auto simp: utf8_char_def split: if_splits)

lemma utf8_char_returns_iff:
  "(\<exists>b. utf8_char c = Inr b) \<longleftrightarrow> \<not> (0xD800 \<le> c \<and> c < 0xE000)"
  by (auto simp: utf8_char_def)

lemma encode_utf8_nonempty: "encode_utf8 n = Inr b \<Longrightarrow> n \<noteq> [] \<Longrightarrow> b \<noteq> []"
  by (cases n) (auto split: sum.splits dest: utf8_char_nonempty)

lemma encode_utf8_returns_iff:
  "(\<exists>b. encode_utf8 n = Inr b) \<longleftrightarrow> (\<forall>c \<in> set n. \<not> (0xD800 \<le> c \<and> c < 0xE000))"
proof (induction n)
  case Nil
  show ?case by simp
next
  case (Cons c cs)
  show ?case
  proof (cases "utf8_char c")
    case (Inl e)
    then have "0xD800 \<le> c \<and> c < 0xE000" using utf8_char_returns_iff [of c] by auto
    then show ?thesis using Inl by simp
  next
    case (Inr b)
    then have "\<not> (0xD800 \<le> c \<and> c < 0xE000)" using utf8_char_returns_iff [of c] by blast
    then show ?thesis using Inr Cons by (auto split: sum.splits)
  qed
qed

lemma add_local_name_absent: "add_local_name None ad = Inr ad"
  by (simp add: add_local_name_def)

lemma add_local_name_empty: "add_local_name (Some []) ad = Inr ad"
  by (simp add: add_local_name_def)

lemma add_local_name_present:
  assumes "n \<noteq> []" "encode_utf8 n = Inr b"
  shows "add_local_name (Some n) ad =
           Inr (ad @ [int (length (take 29 b)) + 1, 0x09] @ map uint (take 29 b))"
proof -
  have "b \<noteq> []" using assms encode_utf8_nonempty by blast
  then have "take 29 b \<noteq> []" by (cases b) simp_all
  then show ?thesis using assms by (simp add: add_local_name_def Let_def)
qed

lemma add_local_name_raises:
  assumes "n \<noteq> []" "encode_utf8 n = Inl e"
  shows "add_local_name (Some n) ad = Inl e"
  using assms by (simp add: add_local_name_def)

lemma add_local_name_append:
  "add_local_name nm ad =
     (case add_local_name nm [] of Inl e \<Rightarrow> Inl e | Inr el \<Rightarrow> Inr (ad @ el))"
  by (auto simp: add_local_name_def Let_def split: option.splits sum.splits)

lemma build_ad_data_elements:
  assumes "build_ad_data dev adv = Inr ad"
  shows "\<exists>nm md. add_local_name (device.name dev) [] = Inr nm \<and>
           map (add_manufacturer_data_item []) (manufacturer_data adv) = map Inr md \<and>
           ad = [0x02, 0x01, 0x06] @ nm
                @ concat (map (add_service_uuid []) (service_uuids adv))
                @ concat (map (add_service_data_item []) (service_data adv))
                @ concat md"
proof -
  from assms obtain a2 where
    a2: "add_local_name (device.name dev) (add_flags []) = Inr a2" and
    r: "add_manufacturer_data (manufacturer_data adv)
          (add_service_data (service_data adv) (add_service_uuids (service_uuids adv) a2)) = Inr ad"
    by (auto simp: build_ad_data_def split: sum.splits)
  from a2 obtain nm where nm: "add_local_name (device.name dev) [] = Inr nm"
    and a2_eq: "a2 = [0x02, 0x01, 0x06] @ nm"
    using add_local_name_append [of "device.name dev" "add_flags []"]
    by (auto simp: add_flags_def split: sum.splits)
  from add_manufacturer_data_concat [OF r] obtain md where
    md: "map (add_manufacturer_data_item []) (manufacturer_data adv) = map Inr md" and
    ad_eq: "ad = add_service_data (service_data adv) (add_service_uuids (service_uuids adv) a2)
                 @ concat md"
    by blast
  have "ad = [0x02, 0x01, 0x06] @ nm
                @ concat (map (add_service_uuid []) (service_uuids adv))
                @ concat (map (add_service_data_item []) (service_data adv))
                @ concat md"
    using ad_eq a2_eq by (simp add: add_service_data_concat add_service_uuids_concat)
  then show ?thesis using nm md by blast
qed

lemma build_ad_data_flags:
  assumes "build_ad_data dev adv = Inr ad"
  shows "take 3 ad = [0x02, 0x01, 0x06]" and "3 \<le> length ad"
  using build_ad_data_elements [OF assms] by auto

lemma limit_31_take: "limit_31 ad = take 31 ad"
  by (simp add: limit_31_def)

lemma parse_advertisement_data_raw:
  assumes "parse_advertisement_data now dev adv = Inr p"
  shows "\<exists>ad. build_ad_data dev adv = Inr ad \<and> raw_data p = take 31 ad \<and>
           hci_cmd p = hci_cmd_of (take 31 ad)"
proof -
  from assms obtain ad where ad: "build_ad_data dev adv = Inr ad"
    by (auto simp: parse_advertisement_data_def Let_def split: sum.splits)
  have "take 31 ad \<noteq> []" using build_ad_data_flags [OF ad] by auto
  then have "raw_data p = take 31 ad \<and> hci_cmd p = hci_cmd_of (take 31 ad)"
    using assms ad
    by (auto simp: parse_advertisement_data_def Let_def generate_command_def limit_31_take)
  then show ?thesis using ad by blast
qed


subsection \<open>When the method returns\<close>

lemma add_service_uuid_unparsed_36:
  "length s = 36 \<Longrightarrow> int_base_16 (split_first 0x2D s) = None \<Longrightarrow> add_service_uuid ad s = ad"
  by (simp add: add_service_uuid_def)

lemma add_service_uuid_unparsed_short:
  "length s \<noteq> 36 \<Longrightarrow> int_base_16 s = None \<Longrightarrow> add_service_uuid ad s = ad"
  by (simp add: add_service_uuid_def)

lemma add_service_uuids_skip:
  assumes "add_service_uuid [] s = []"
  shows "add_service_uuids (xs @ s # ys) ad = add_service_uuids (xs @ ys) ad"
  using assms by (simp add: add_service_uuids_concat)

lemma add_service_data_skip:
  assumes "add_service_data_item [] i = []"
  shows "add_service_data (xs @ i # ys) ad = add_service_data (xs @ ys) ad"
  using assms by (simp add: add_service_data_concat)

lemma add_local_name_returns_iff:
  "(\<exists>r. add_local_name nm ad = Inr r) \<longleftrightarrow>
     (\<forall>n. nm = Some n \<longrightarrow> (\<forall>c \<in> set n. \<not> (0xD800 \<le> c \<and> c < 0xE000)))"
proof (cases nm)
  case None
  then show ?thesis by (simp add: add_local_name_absent)
next
  case (Some n)
  show ?thesis
  proof (cases "n = []")
    case True
    then show ?thesis using Some by (simp add: add_local_name_empty)
  next
    case False
    show ?thesis
    proof (cases "encode_utf8 n")
      case (Inl e)
      then have "\<not> (\<forall>c \<in> set n. \<not> (0xD800 \<le> c \<and> c < 0xE000))"
        using encode_utf8_returns_iff [of n] by auto
      then show ?thesis using Some False Inl by (simp add: add_local_name_raises)
    next
      case (Inr b)
      then have "\<forall>c \<in> set n. \<not> (0xD800 \<le> c \<and> c < 0xE000)"
        using encode_utf8_returns_iff [of n] by blast
      then show ?thesis using Some False Inr by (simp add: add_local_name_present)
    qed
  qed
qed

lemma build_ad_data_returns_iff:
  "(\<exists>ad. build_ad_data dev adv = Inr ad) \<longleftrightarrow>
     (\<forall>n. device.name dev = Some n \<longrightarrow> (\<forall>c \<in> set n. \<not> (0xD800 \<le> c \<and> c < 0xE000))) \<and>
     (\<forall>(c, d) \<in> set (manufacturer_data adv).
        2 + int (length d) + 1 \<le> 31 \<longrightarrow> 0 \<le> c \<and> c \<le> 0xFFFF)"
proof (cases "add_local_name (device.name dev) (add_flags [])")
  case (Inl e)
  then have "\<not> (\<exists>r. add_local_name (device.name dev) (add_flags []) = Inr r)" by simp
  then have "\<not> (\<forall>n. device.name dev = Some n \<longrightarrow> (\<forall>c \<in> set n. \<not> (0xD800 \<le> c \<and> c < 0xE000)))"
    unfolding add_local_name_returns_iff .
  then show ?thesis using Inl by (auto simp: build_ad_data_def)
next
  case (Inr a2)
  then have "\<exists>r. add_local_name (device.name dev) (add_flags []) = Inr r" by simp
  then have 1: "\<forall>n. device.name dev = Some n \<longrightarrow> (\<forall>c \<in> set n. \<not> (0xD800 \<le> c \<and> c < 0xE000))"
    unfolding add_local_name_returns_iff .
  have "(\<exists>ad. build_ad_data dev adv = Inr ad) \<longleftrightarrow>
        (\<exists>ad. add_manufacturer_data (manufacturer_data adv)
           (add_service_data (service_data adv) (add_service_uuids (service_uuids adv) a2)) = Inr ad)"
    using Inr by (simp add: build_ad_data_def)
  then show ?thesis using 1 unfolding add_manufacturer_data_returns_iff by blast
qed

lemma parse_advertisement_data_returns_iff:
  "(\<exists>p. parse_advertisement_data now dev adv = Inr p) \<longleftrightarrow> (\<exists>ad. build_ad_data dev adv = Inr ad)"
  by (auto simp: parse_advertisement_data_def Let_def split: sum.splits)

subsection \<open>The command text\<close>


lemma lt16_cases:
  assumes "(d::nat) < 16"
  shows "d \<in> set [0, 1, 2, 3, 4, 5, 6, 7, 8, 9, 10, 11, 12, 13, 14, 15]"
  using assms by (simp; arith)

lemma hex_digit_table: "d < 16 \<Longrightarrow> hex_digit d = lit ''0123456789ABCDEF'' ! d"
  using lt16_cases [of d] by (auto simp: hex_digit_def lit_def)

lemma hex_digit_in_table: "d < 16 \<Longrightarrow> hex_digit d \<in> set (lit ''0123456789ABCDEF'')"
  using lt16_cases [of d] by (auto simp: hex_digit_def lit_def)

lemma hex_digit_no_space: "d < 16 \<Longrightarrow> \<not> unicode_space (hex_digit d)"
  by (auto simp: hex_digit_def unicode_space_def)

lemma format_02X_byte:
  assumes "0 \<le> b" "b < 256"
  shows "format_02X b = [hex_digit (nat b div 16), hex_digit (nat b mod 16)]"
proof (cases "nat b < 16")
  case True
  then have "hex_digits (nat b) = [hex_digit (nat b)]" by (simp add: hex_digits.simps)
  moreover have "hex_digit 0 = 0x30" by (simp add: hex_digit_def)
  ultimately show ?thesis using assms True by (simp add: format_02X_def)
next
  case False
  have "nat b div 16 < 16" using assms by simp
  then have "hex_digits (nat b div 16) = [hex_digit (nat b div 16)]"
    by (simp add: hex_digits.simps)
  then have "hex_digits (nat b) = [hex_digit (nat b div 16), hex_digit (nat b mod 16)]"
    using False by (simp add: hex_digits.simps [of "nat b"])
  then show ?thesis using assms by (simp add: format_02X_def)
qed

lemma split_ws_acc_word:
  "\<forall>c \<in> set t. \<not> unicode_space c \<Longrightarrow> split_ws_acc w (t @ s) = split_ws_acc (w @ t) s"
  by (induction t arbitrary: w) simp_all

lemma split_ws_acc_join:
  assumes "\<forall>t \<in> set ts. t \<noteq> [] \<and> (\<forall>c \<in> set t. \<not> unicode_space c)"
  shows "split_ws_acc [] (join [0x20] ts) = ts"
  using assms
proof (induction "[0x20::nat]" ts rule: join.induct)
  case 1
  show ?case by simp
next
  case (2 x)
  then have "split_ws_acc [] (x @ []) = split_ws_acc ([] @ x) []"
    by (intro split_ws_acc_word) simp
  then show ?case using 2 by simp
next
  case (3 x y ys)
  have "split_ws_acc [] (x @ ([0x20] @ join [0x20] (y # ys)))
        = split_ws_acc ([] @ x) ([0x20] @ join [0x20] (y # ys))"
    using 3 by (intro split_ws_acc_word) simp
  moreover have "unicode_space 0x20" by (simp add: unicode_space_def)
  moreover have "x \<noteq> []" using 3 by simp
  moreover have "split_ws_acc [] (join [0x20] (y # ys)) = y # ys" using 3 by simp
  ultimately show ?case by simp
qed

lemma hci_cmd_of_join:
  "hci_cmd_of ad =
     join [0x20] (map lit [''sudo'', ''hcitool'', ''-i'', ''hci0'', ''cmd'', ''0x08'', ''0x0008'']
                  @ hci_params ad)"
proof -
  obtain x xs where "hci_params ad = x # xs" by (simp add: hci_params_def Let_def)
  then show ?thesis by (simp add: hci_cmd_of_def lit_def)
qed

lemma hci_params_bytes:
  assumes "length ad \<le> 31" "\<forall>b \<in> set ad. 0 \<le> b \<and> b < 256"
  shows "hci_params ad =
           map (\<lambda>b. [hex_digit (nat b div 16), hex_digit (nat b mod 16)])
             (int (length ad) # ad @ replicate (31 - length ad) 0)"
proof -
  have "\<forall>b \<in> set (int (length ad) # ad @ replicate (31 - length ad) 0). 0 \<le> b \<and> b < 256"
    using assms by auto
  then have "map format_02X (int (length ad) # ad @ replicate (31 - length ad) 0) =
        map (\<lambda>b. [hex_digit (nat b div 16), hex_digit (nat b mod 16)])
             (int (length ad) # ad @ replicate (31 - length ad) 0)"
    using format_02X_byte by (intro map_cong) blast+
  then show ?thesis by (simp add: hci_params_def Let_def)
qed

lemma hci_params_length: "length ad \<le> 31 \<Longrightarrow> length (hci_params ad) = 32"
  by (simp add: hci_params_def Let_def)

lemma hci_params_tokens:
  assumes "length ad \<le> 31" "\<forall>b \<in> set ad. 0 \<le> b \<and> b < 256" "t \<in> set (hci_params ad)"
  shows "length t = 2 \<and> set t \<subseteq> set (lit ''0123456789ABCDEF'') \<and> (\<forall>c \<in> set t. \<not> unicode_space c)"
proof -
  have "\<forall>b \<in> set (int (length ad) # ad @ replicate (31 - length ad) 0). 0 \<le> b \<and> b < 256"
    using assms by auto
  moreover from assms(3) obtain b where
    "b \<in> set (int (length ad) # ad @ replicate (31 - length ad) 0)"
    and t: "t = [hex_digit (nat b div 16), hex_digit (nat b mod 16)]"
    unfolding hci_params_bytes [OF assms(1,2)] set_map by (rule imageE)
  ultimately have b: "0 \<le> b" "b < 256" by blast+
  have 1: "nat b div 16 < 16" using b by simp
  have 2: "nat b mod 16 < 16" by simp
  show ?thesis
    using t hex_digit_in_table [OF 1] hex_digit_in_table [OF 2]
      hex_digit_no_space [OF 1] hex_digit_no_space [OF 2]
    by simp
qed

lemma printable_no_space: "0x21 \<le> c \<Longrightarrow> c < 0x7F \<Longrightarrow> \<not> unicode_space c"
  by (simp add: unicode_space_def)

lemma prefix_tokens_printable:
  "\<forall>t \<in> set (map lit [''sudo'', ''hcitool'', ''-i'', ''hci0'', ''cmd'', ''0x08'', ''0x0008'']).
      t \<noteq> [] \<and> (\<forall>c \<in> set t. 0x21 \<le> c \<and> c < 0x7F)"
  by (simp add: lit_def)

lemma prefix_tokens_ok:
  "\<forall>t \<in> set (map lit [''sudo'', ''hcitool'', ''-i'', ''hci0'', ''cmd'', ''0x08'', ''0x0008'']).
      t \<noteq> [] \<and> (\<forall>c \<in> set t. \<not> unicode_space c)"
  using prefix_tokens_printable printable_no_space by blast

lemma split_ws_hci_cmd_of:
  assumes "length ad \<le> 31" "\<forall>b \<in> set ad. 0 \<le> b \<and> b < 256"
  shows "split_ws (hci_cmd_of ad) =
           map lit [''sudo'', ''hcitool'', ''-i'', ''hci0'', ''cmd'', ''0x08'', ''0x0008'']
           @ hci_params ad"
proof -
  have "\<forall>t \<in> set (hci_params ad). t \<noteq> [] \<and> (\<forall>c \<in> set t. \<not> unicode_space c)"
    using hci_params_tokens [OF assms] by fastforce
  then have "\<forall>t \<in> set (map lit [''sudo'', ''hcitool'', ''-i'', ''hci0'', ''cmd'', ''0x08'', ''0x0008'']
      @ hci_params ad). t \<noteq> [] \<and> (\<forall>c \<in> set t. \<not> unicode_space c)"
    using prefix_tokens_ok unfolding set_append by blast
  then show ?thesis
    unfolding split_ws_def hci_cmd_of_join by (rule split_ws_acc_join)
qed

lemma uint_byte_range: "0 \<le> uint (x :: byte) \<and> uint x < 256"
  using uint_bounded [of x] by simp

lemma add_local_name_range:
  assumes "add_local_name nm [] = Inr el" "b \<in> set el"
  shows "0 \<le> b \<and> b < 256"
proof (cases nm)
  case None
  then show ?thesis using assms by (simp add: add_local_name_absent)
next
  case (Some n)
  show ?thesis
  proof (cases "n = []")
    case True
    then show ?thesis using assms Some by (simp add: add_local_name_empty)
  next
    case False
    from assms(1) Some False obtain bs where bs: "encode_utf8 n = Inr bs"
      by (cases "encode_utf8 n") (simp_all add: add_local_name_raises)
    have "el = [int (length (take 29 bs)) + 1, 0x09] @ map uint (take 29 bs)"
      using assms(1) Some add_local_name_present [OF False bs, of "[]"] by simp
    then show ?thesis using assms(2) uint_byte_range by auto
  qed
qed

lemma masked_high_byte: "0 \<le> ((n::int) AND 0xFFFF) div 256 \<and> (n AND 0xFFFF) div 256 < 256"
proof -
  define v where "v = n mod 65536"
  have v: "0 \<le> v" "v \<le> 0xFFFF" by (simp_all add: v_def)
  have "v div 256 < 256" using v by simp
  moreover have "0 \<le> v div 256" using v by simp
  ultimately show ?thesis by (simp add: and_ffff v_def)
qed

lemma add_service_uuid_range:
  assumes "b \<in> set (add_service_uuid [] s)"
  shows "0 \<le> b \<and> b < 256"
proof -
  note v = masked_high_byte
  have el: "add_service_uuid [] s = [] \<or>
        (\<exists>n. add_service_uuid [] s = [0x03, 0x03, (n AND 0xFFFF) mod 256, (n AND 0xFFFF) div 256])"
  proof (cases "length s = 36")
    case True
    then show ?thesis
      by (cases "int_base_16 (split_first 0x2D s)")
        (auto simp: add_service_uuid_unparsed_36 add_service_uuid_36)
  next
    case False
    then show ?thesis
      by (cases "int_base_16 s") (auto simp: add_service_uuid_unparsed_short add_service_uuid_short)
  qed
  then show ?thesis using assms v by auto
qed

lemma add_service_data_item_range:
  assumes "b \<in> set (add_service_data_item [] i)"
  shows "0 \<le> b \<and> b < 256"
proof -
  obtain u d where i: "i = (u, d)" by (cases i)
  note v = masked_high_byte
  show ?thesis
  proof (cases "int_base_16 (split_first 0x2D u)")
    case None
    then show ?thesis using assms i by (simp add: add_service_data_item_unparsed)
  next
    case (Some n)
    then show ?thesis
      using assms i v [of n] uint_byte_range
      by (auto simp: add_service_data_item_parsed split: if_splits)
  qed
qed

lemma add_manufacturer_data_item_range:
  assumes "add_manufacturer_data_item [] i = Inr el" "b \<in> set el"
  shows "0 \<le> b \<and> b < 256"
proof -
  obtain c d where i: "i = (c, d)" by (cases i)
  show ?thesis
  proof (cases "2 + int (length d) + 1 \<le> 31")
    case False
    then show ?thesis using assms i by (simp add: add_manufacturer_data_item_long)
  next
    case True
    then have c: "0 \<le> c \<and> c \<le> 0xFFFF"
      using assms(1) i add_manufacturer_data_item_raises [of d c "[]"] by auto
    then have "el = [2 + int (length d) + 1, 0xFF, c mod 256, c div 256] @ map uint d"
      using assms(1) i True add_manufacturer_data_item_ok [of c "[]" d] by simp
    then show ?thesis using assms(2) c True uint_byte_range by auto
  qed
qed

lemma build_ad_data_range:
  assumes "build_ad_data dev adv = Inr ad" "b \<in> set ad"
  shows "0 \<le> b \<and> b < 256"
proof -
  from build_ad_data_elements [OF assms(1)] obtain nm md where
    nm: "add_local_name (device.name dev) [] = Inr nm" and
    md: "map (add_manufacturer_data_item []) (manufacturer_data adv) = map Inr md" and
    ad: "ad = [0x02, 0x01, 0x06] @ nm
                @ concat (map (add_service_uuid []) (service_uuids adv))
                @ concat (map (add_service_data_item []) (service_data adv))
                @ concat md"
    by blast
  have "\<And>el. el \<in> set md \<Longrightarrow> \<exists>i. add_manufacturer_data_item [] i = Inr el"
  proof -
    fix el assume "el \<in> set md"
    then have "Inr el \<in> set (map (add_manufacturer_data_item []) (manufacturer_data adv))"
      unfolding md by simp
    then obtain i where "Inr el = add_manufacturer_data_item [] i"
      unfolding set_map by blast
    then show "\<exists>i. add_manufacturer_data_item [] i = Inr el" by metis
  qed
  then have 4: "\<And>el. el \<in> set md \<Longrightarrow> b \<in> set el \<Longrightarrow> 0 \<le> b \<and> b < 256"
    using add_manufacturer_data_item_range by blast
  from assms(2) consider "b \<in> set [0x02, 0x01, 0x06]" | "b \<in> set nm"
    | "\<exists>s. b \<in> set (add_service_uuid [] s)" | "\<exists>i. b \<in> set (add_service_data_item [] i)"
    | "\<exists>el \<in> set md. b \<in> set el"
    unfolding ad by auto
  then show ?thesis
  proof cases
    case 1
    then show ?thesis by auto
  next
    case 2
    then show ?thesis using add_local_name_range [OF nm] by blast
  next
    case 3
    then show ?thesis using add_service_uuid_range by blast
  next
    case 4
    then show ?thesis using add_service_data_item_range by blast
  next
    case 5
    then show ?thesis using 4 by blast
  qed
qed

lemma parse_advertisement_data_range:
  assumes "parse_advertisement_data now dev adv = Inr p"
  shows "length (raw_data p) \<le> 31 \<and> (\<forall>b \<in> set (raw_data p). 0 \<le> b \<and> b < 256)"
proof -
  from parse_advertisement_data_raw [OF assms] obtain ad where
    ad: "build_ad_data dev adv = Inr ad" and raw: "raw_data p = take 31 ad"
    by blast
  have "\<forall>b \<in> set (take 31 ad). 0 \<le> b \<and> b < 256"
    using build_ad_data_range [OF ad] in_set_takeD by fast
  then show ?thesis using raw by simp
qed

lemma join_concat:
  "xs \<noteq> [] \<Longrightarrow> sep @ join sep xs = concat (map (\<lambda>t. sep @ t) xs)"
  by (induction sep xs rule: join.induct) simp_all

lemma hci_cmd_of_nonempty: "hci_cmd_of ad \<noteq> []"
  by (simp add: hci_cmd_of_def lit_def)

lemma hci_cmd_of_bytes:
  assumes "length ad \<le> 31" "\<forall>b \<in> set ad. 0 \<le> b \<and> b < 256"
  shows "hci_cmd_of ad =
           lit ''sudo hcitool -i hci0 cmd 0x08 0x0008'' @
           concat (map (\<lambda>b. [0x20, lit ''0123456789ABCDEF'' ! (nat b div 16),
                               lit ''0123456789ABCDEF'' ! (nat b mod 16)])
                     (int (length ad) # ad @ replicate (31 - length ad) 0))"
proof -
  let ?bs = "int (length ad) # ad @ replicate (31 - length ad) 0"
  have range: "\<forall>b \<in> set ?bs. 0 \<le> b \<and> b < 256" using assms by auto
  have "hci_cmd_of ad = lit ''sudo hcitool -i hci0 cmd 0x08 0x0008'' @ ([0x20] @ join [0x20] (hci_params ad))"
    by (simp add: hci_cmd_of_def lit_def)
  also have "[0x20] @ join [0x20] (hci_params ad)
        = concat (map (\<lambda>t. [0x20] @ t) (hci_params ad))"
    by (rule join_concat) (simp add: hci_params_def Let_def)
  also have "\<dots> = concat (map (\<lambda>b. [0x20] @ [hex_digit (nat b div 16), hex_digit (nat b mod 16)]) ?bs)"
    unfolding hci_params_bytes [OF assms] by (simp add: comp_def)
  also have "map (\<lambda>b. [0x20] @ [hex_digit (nat b div 16), hex_digit (nat b mod 16)]) ?bs
        = map (\<lambda>b. [0x20, lit ''0123456789ABCDEF'' ! (nat b div 16),
                      lit ''0123456789ABCDEF'' ! (nat b mod 16)]) ?bs"
  proof (rule map_cong [OF refl])
    fix b assume "b \<in> set ?bs"
    then have "0 \<le> b" "b < 256" using range by blast+
    then have "nat b div 16 < 16" "nat b mod 16 < 16" by simp_all
    then show "[0x20] @ [hex_digit (nat b div 16), hex_digit (nat b mod 16)]
        = [0x20, lit ''0123456789ABCDEF'' ! (nat b div 16),
                      lit ''0123456789ABCDEF'' ! (nat b mod 16)]"
      by (simp add: hex_digit_table)
  qed
  finally show ?thesis .
qed


subsection \<open>The callback\<close>

lemma find_existing_Some:
  "find_existing packet ps = Some i \<longleftrightarrow>
     i < length ps \<and>
     address (ps ! i) = address packet \<and> raw_data (ps ! i) = raw_data packet \<and>
     (\<forall>j<i. \<not> (address (ps ! j) = address packet \<and> raw_data (ps ! j) = raw_data packet))"
proof (induction ps arbitrary: i)
  case Nil
  show ?case by simp
next
  case (Cons q qs)
  show ?case
  proof (cases "address q = address packet \<and> raw_data q = raw_data packet")
    case True
    then show ?thesis by (cases i) auto
  next
    case False
    show ?thesis
    proof (cases i)
      case 0
      then show ?thesis using False by auto
    next
      case (Suc k)
      have "(\<forall>j<Suc k. \<not> (address ((q # qs) ! j) = address packet \<and>
                raw_data ((q # qs) ! j) = raw_data packet))
          \<longleftrightarrow> (\<forall>j<k. \<not> (address (qs ! j) = address packet \<and> raw_data (qs ! j) = raw_data packet))"
        using False by (auto simp: less_Suc_eq_0_disj)
      then show ?thesis using False Suc Cons [of k] by auto
    qed
  qed
qed

lemma find_existing_None:
  "find_existing packet ps = None \<longleftrightarrow>
     (\<forall>q \<in> set ps. \<not> (address q = address packet \<and> raw_data q = raw_data packet))"
  by (induction ps) auto

lemma parse_advertisement_data_fields:
  assumes "parse_advertisement_data now dev adv = Inr p"
  shows "timestamp p = now" and "address p = device.address dev"
    and "rssi p = advertisement_data.rssi adv"
    and "name p = (case device.name dev of None \<Rightarrow> lit ''Unknown''
                   | Some n \<Rightarrow> if n = [] then lit ''Unknown'' else n)"
  using assms
  by (auto simp: parse_advertisement_data_def Let_def generate_command_def split: sum.splits if_splits)


lemma parse_advertisement_data_name_nonempty:
  assumes "parse_advertisement_data now dev adv = Inr p"
  shows "name p \<noteq> []"
  using parse_advertisement_data_fields(4) [OF assms]
  by (auto simp: lit_def split: option.splits if_splits)

lemma detection_callback_names:
  assumes "\<forall>q \<in> set (captured_packets self). name q \<noteq> []"
    and "detection_callback target_names target_addresses now self dev adv = Inr self'"
  shows "\<forall>q \<in> set (captured_packets self'). name q \<noteq> []"
proof (cases "filtered_out target_names target_addresses dev")
  case True
  then show ?thesis using assms by (simp add: detection_callback_def)
next
  case False
  from assms(2) False obtain packet where
    p: "parse_advertisement_data now dev adv = Inr packet"
    by (auto simp: detection_callback_def split: sum.splits)
  have np: "name packet \<noteq> []" using parse_advertisement_data_name_nonempty [OF p] .
  show ?thesis
  proof (cases "find_existing packet (captured_packets self)")
    case None
    then have "captured_packets self' = captured_packets self @ [packet]"
      using assms(2) False p by (auto simp: detection_callback_def)
    then show ?thesis using assms(1) np by auto
  next
    case (Some i)
    then have i: "i < length (captured_packets self)" unfolding find_existing_Some by blast
    have cp: "captured_packets self' =
        (captured_packets self)[i := (captured_packets self ! i)
           \<lparr>timestamp := timestamp packet, rssi := rssi packet\<rparr>]"
      using assms(2) False p Some by (auto simp: detection_callback_def)
    have "name ((captured_packets self ! i)\<lparr>timestamp := timestamp packet, rssi := rssi packet\<rparr>) \<noteq> []"
      using assms(1) i by simp
    then show ?thesis
      unfolding cp using assms(1) by (metis insert_iff set_update_subset_insert subsetD)
  qed
qed

subsection \<open>The lists a capture can hold\<close>

lemma detection_callback_cases:
  assumes "detection_callback target_names target_addresses now self dev adv = Inr self'"
  obtains (filtered) "filtered_out target_names target_addresses dev" "self' = self"
  | (appended) packet where "\<not> filtered_out target_names target_addresses dev"
      "parse_advertisement_data now dev adv = Inr packet"
      "\<forall>q \<in> set (captured_packets self).
         \<not> (address q = address packet \<and> raw_data q = raw_data packet)"
      "captured_packets self' = captured_packets self @ [packet]"
  | (updated) packet i where "\<not> filtered_out target_names target_addresses dev"
      "parse_advertisement_data now dev adv = Inr packet"
      "i < length (captured_packets self)"
      "address (captured_packets self ! i) = address packet"
      "raw_data (captured_packets self ! i) = raw_data packet"
      "captured_packets self' = (captured_packets self)
         [i := (captured_packets self ! i)\<lparr>timestamp := timestamp packet, rssi := rssi packet\<rparr>]"
proof (cases "filtered_out target_names target_addresses dev")
  case True
  then have "self' = self" using assms by (simp add: detection_callback_def)
  then show ?thesis using True filtered by blast
next
  case False
  from assms False obtain packet where
    p: "parse_advertisement_data now dev adv = Inr packet"
    by (auto simp: detection_callback_def split: sum.splits)
  show ?thesis
  proof (cases "find_existing packet (captured_packets self)")
    case None
    then have "captured_packets self' = captured_packets self @ [packet]"
      using assms False p by (auto simp: detection_callback_def)
    moreover have "\<forall>q \<in> set (captured_packets self).
         \<not> (address q = address packet \<and> raw_data q = raw_data packet)"
      using None unfolding find_existing_None .
    ultimately show ?thesis using False p appended by blast
  next
    case (Some i)
    then have "captured_packets self' = (captured_packets self)
         [i := (captured_packets self ! i)\<lparr>timestamp := timestamp packet, rssi := rssi packet\<rparr>]"
      using assms False p by (auto simp: detection_callback_def)
    moreover have "i < length (captured_packets self)"
      "address (captured_packets self ! i) = address packet"
      "raw_data (captured_packets self ! i) = raw_data packet"
      using Some unfolding find_existing_Some by blast+
    ultimately show ?thesis using False p updated by blast
  qed
qed

lemma reachable_packets:
  assumes "reachable self"
    and parsed: "\<And>now dev adv p. parse_advertisement_data now dev adv = Inr p \<Longrightarrow> P p"
    and kept: "\<And>q t r. P q \<Longrightarrow> P (q\<lparr>timestamp := t, rssi := r\<rparr>)"
  shows "\<forall>q \<in> set (captured_packets self). P q"
  using assms(1)
proof (induction rule: reachable.induct)
  case reachable_init
  show ?case by simp
next
  case (reachable_step self target_names target_addresses now dev adv self')
  from reachable_step.hyps(2) show ?case
  proof (cases rule: detection_callback_cases)
    case filtered
    then show ?thesis using reachable_step.IH by simp
  next
    case (appended packet)
    then show ?thesis using reachable_step.IH parsed by auto
  next
    case (updated packet i)
    have "P ((captured_packets self ! i)\<lparr>timestamp := timestamp packet, rssi := rssi packet\<rparr>)"
      using reachable_step.IH updated(3) kept by simp
    then show ?thesis
      unfolding updated(6) using reachable_step.IH
      by (metis insert_iff set_update_subset_insert subsetD)
  qed
qed

lemma reachable_distinct_keys:
  assumes "reachable self"
  shows "distinct (map (\<lambda>q. (address q, raw_data q)) (captured_packets self))"
  using assms
proof (induction rule: reachable.induct)
  case reachable_init
  show ?case by simp
next
  case (reachable_step self target_names target_addresses now dev adv self')
  from reachable_step.hyps(2) show ?case
  proof (cases rule: detection_callback_cases)
    case filtered
    then show ?thesis using reachable_step.IH by simp
  next
    case (appended packet)
    have "(address packet, raw_data packet)
        \<notin> set (map (\<lambda>q. (address q, raw_data q)) (captured_packets self))"
      using appended(3) by auto
    then show ?thesis unfolding appended(4) using reachable_step.IH by simp
  next
    case (updated packet i)
    have "map (\<lambda>q. (address q, raw_data q)) (captured_packets self') =
        (map (\<lambda>q. (address q, raw_data q)) (captured_packets self))
          [i := (address (captured_packets self ! i), raw_data (captured_packets self ! i))]"
      unfolding updated(6) by (simp add: map_update)
    also have "\<dots> = map (\<lambda>q. (address q, raw_data q)) (captured_packets self)"
      using updated(3) by (simp add: list_update_same_conv)
    finally show ?thesis using reachable_step.IH by simp
  qed
qed

lemma no_name_type_Nil: "no_name_type []"
  by (simp add: no_name_type_def)

lemma no_name_type_append:
  assumes "no_name_type xs" "no_name_type ys"
  shows "no_name_type (xs @ ys)"
proof (cases "xs = []")
  case True
  then show ?thesis using assms by simp
next
  case False
  then have "length xs \<noteq> 0" by simp
  moreover have "length xs \<noteq> 1" using assms(1) by (simp add: no_name_type_def)
  ultimately have "2 \<le> length xs" by arith
  then show ?thesis using assms(1) by (auto simp: no_name_type_def nth_append)
qed

lemma no_name_type_concat:
  assumes "\<forall>xs \<in> set xss. no_name_type xs"
  shows "no_name_type (concat xss)"
  using assms by (induction xss) (simp_all add: no_name_type_Nil no_name_type_append)

lemma add_service_uuid_no_name: "no_name_type (add_service_uuid [] s)"
proof -
  have "add_service_uuid [] s = [] \<or>
        (\<exists>n. add_service_uuid [] s = [0x03, 0x03, (n AND 0xFFFF) mod 256, (n AND 0xFFFF) div 256])"
  proof (cases "length s = 36")
    case True
    then show ?thesis
      by (cases "int_base_16 (split_first 0x2D s)")
        (auto simp: add_service_uuid_unparsed_36 add_service_uuid_36)
  next
    case False
    then show ?thesis
      by (cases "int_base_16 s") (auto simp: add_service_uuid_unparsed_short add_service_uuid_short)
  qed
  then show ?thesis by (auto simp: no_name_type_def)
qed

lemma add_service_data_item_no_name: "no_name_type (add_service_data_item [] i)"
proof -
  obtain u d where i: "i = (u, d)" by (cases i)
  show ?thesis
  proof (cases "int_base_16 (split_first 0x2D u)")
    case None
    then show ?thesis using i by (simp add: add_service_data_item_unparsed no_name_type_Nil)
  next
    case (Some n)
    then show ?thesis using i
      by (simp add: add_service_data_item_parsed no_name_type_def)
  qed
qed

lemma add_manufacturer_data_item_no_name:
  assumes "add_manufacturer_data_item [] i = Inr el"
  shows "no_name_type el"
proof -
  obtain c d where i: "i = (c, d)" by (cases i)
  show ?thesis
  proof (cases "2 + int (length d) + 1 \<le> 31")
    case False
    then show ?thesis using assms i
      by (simp add: add_manufacturer_data_item_long no_name_type_Nil)
  next
    case True
    then have c: "0 \<le> c \<and> c \<le> 0xFFFF"
      using assms i add_manufacturer_data_item_raises [of d c "[]"] by auto
    then have "el = [2 + int (length d) + 1, 0xFF, c mod 256, c div 256] @ map uint d"
      using assms i True add_manufacturer_data_item_ok [of c "[]" d] by simp
    then show ?thesis by (simp add: no_name_type_def)
  qed
qed

text \<open>Without a name the item at index 4 is never the type byte of a name.\<close>

lemma parse_advertisement_data_absent_name:
  assumes "parse_advertisement_data now dev adv = Inr p"
    and "device.name dev = None \<or> device.name dev = Some []"
  shows "\<not> (4 < length (raw_data p) \<and> raw_data p ! 4 = 0x09)"
proof -
  from parse_advertisement_data_raw [OF assms(1)] obtain ad where
    ad: "build_ad_data dev adv = Inr ad" and raw: "raw_data p = take 31 ad"
    by blast
  from build_ad_data_elements [OF ad] obtain nm md where
    nm: "add_local_name (device.name dev) [] = Inr nm" and
    md: "map (add_manufacturer_data_item []) (manufacturer_data adv) = map Inr md" and
    ad_eq: "ad = [0x02, 0x01, 0x06] @ nm
              @ concat (map (add_service_uuid []) (service_uuids adv))
              @ concat (map (add_service_data_item []) (service_data adv))
              @ concat md"
    by blast
  have nm_empty: "nm = []"
    using nm assms(2) by (auto simp: add_local_name_absent add_local_name_empty)
  have "\<And>el. el \<in> set md \<Longrightarrow> no_name_type el"
  proof -
    fix el assume "el \<in> set md"
    then have "Inr el \<in> set (map (add_manufacturer_data_item []) (manufacturer_data adv))"
      unfolding md by simp
    then obtain i where "Inr el = add_manufacturer_data_item [] i"
      unfolding set_map by blast
    then show "no_name_type el" using add_manufacturer_data_item_no_name [of i el] by simp
  qed
  then have 3: "no_name_type (concat md)" by (intro no_name_type_concat) blast
  have 1: "no_name_type (concat (map (add_service_uuid []) (service_uuids adv)))"
    by (intro no_name_type_concat) (auto simp: add_service_uuid_no_name)
  have 2: "no_name_type (concat (map (add_service_data_item []) (service_data adv)))"
    by (intro no_name_type_concat) (auto simp: add_service_data_item_no_name)
  define rest where "rest = concat (map (add_service_uuid []) (service_uuids adv))
              @ concat (map (add_service_data_item []) (service_data adv))
              @ concat md"
  have r: "no_name_type rest"
    unfolding rest_def using 1 2 3 by (intro no_name_type_append)
  have eq: "raw_data p = take 31 ([0x02, 0x01, 0x06] @ rest)"
    using raw ad_eq nm_empty by (simp add: rest_def)
  show ?thesis
  proof
    assume a: "4 < length (raw_data p) \<and> raw_data p ! 4 = 0x09"
    then have "2 \<le> length rest" using eq by simp
    moreover have "raw_data p ! 4 = rest ! 1" using a eq by (simp add: nth_append)
    ultimately show False using r a by (simp add: no_name_type_def)
  qed
qed

text \<open>With a name that is not empty the item at index 4 is the type byte of the name.\<close>

lemma parse_advertisement_data_present_name:
  assumes "parse_advertisement_data now dev adv = Inr p"
    and "device.name dev = Some n" "n \<noteq> []"
  shows "4 < length (raw_data p) \<and> raw_data p ! 4 = 0x09"
proof -
  from parse_advertisement_data_raw [OF assms(1)] obtain ad where
    ad: "build_ad_data dev adv = Inr ad" and raw: "raw_data p = take 31 ad"
    by blast
  from build_ad_data_elements [OF ad] obtain nm md where
    nm: "add_local_name (device.name dev) [] = Inr nm" and
    ad_eq: "ad = [0x02, 0x01, 0x06] @ nm
              @ concat (map (add_service_uuid []) (service_uuids adv))
              @ concat (map (add_service_data_item []) (service_data adv))
              @ concat md"
    by blast
  from nm assms(2,3) obtain b where b: "encode_utf8 n = Inr b"
    by (cases "encode_utf8 n") (simp_all add: add_local_name_raises)
  have "nm = [int (length (take 29 b)) + 1, 0x09] @ map uint (take 29 b)"
    using nm assms(2) add_local_name_present [OF assms(3) b, of "[]"] by simp
  then show ?thesis using raw ad_eq by simp
qed

lemma parse_advertisement_data_name_type:
  assumes "parse_advertisement_data now dev adv = Inr p"
  shows "name p \<noteq> lit ''Unknown'' \<longrightarrow> 4 < length (raw_data p) \<and> raw_data p ! 4 = 0x09"
proof (cases "device.name dev = None \<or> device.name dev = Some []")
  case True
  then have "name p = lit ''Unknown''"
    using parse_advertisement_data_fields(4) [OF assms] by auto
  then show ?thesis by simp
next
  case False
  then obtain n where "device.name dev = Some n" "n \<noteq> []" by (cases "device.name dev") auto
  then show ?thesis using parse_advertisement_data_present_name [OF assms] by blast
qed

lemma reachable_name_type:
  assumes "reachable self"
  shows "\<forall>q \<in> set (captured_packets self).
           name q \<noteq> lit ''Unknown'' \<longrightarrow> 4 < length (raw_data q) \<and> raw_data q ! 4 = 0x09"
  by (rule reachable_packets [OF assms]) (simp_all add: parse_advertisement_data_name_type)

lemma reachable_commands:
  assumes "reachable self"
  shows "\<forall>q \<in> set (captured_packets self). hci_cmd q = hci_cmd_of (raw_data q)"
proof (rule reachable_packets [OF assms])
  fix now dev adv p assume "parse_advertisement_data now dev adv = Inr p"
  then show "hci_cmd p = hci_cmd_of (raw_data p)"
    using parse_advertisement_data_raw by fastforce
qed simp


section \<open>The claims\<close>

text \<open>
  C1. Whenever the method returns a packet, its raw data start with the three bytes
  02 01 06 of the flags, hold at least 3 and at most 31 bytes, and are the first 31
  bytes of the list the five steps built, which is the flags followed by the
  elements of the name, of the service UUIDs, of the service data and of the
  manufacturer data: the whole list when it has at most 31 bytes, exactly 31 bytes
  when it has more, wherever the cut falls.
\<close>

theorem payload_flags_first_at_most_31:
  assumes "parse_advertisement_data now dev adv = Inr p"
  shows "take 3 (raw_data p) = [0x02, 0x01, 0x06] \<and>
         3 \<le> length (raw_data p) \<and> length (raw_data p) \<le> 31 \<and>
         (\<exists>ad nm md.
            build_ad_data dev adv = Inr ad \<and>
            add_local_name (device.name dev) [] = Inr nm \<and>
            map (add_manufacturer_data_item []) (manufacturer_data adv) = map Inr md \<and>
            ad = [0x02, 0x01, 0x06] @ nm
                 @ concat (map (add_service_uuid []) (service_uuids adv))
                 @ concat (map (add_service_data_item []) (service_data adv))
                 @ concat md \<and>
            raw_data p = take 31 ad \<and>
            (length ad > 31 \<longrightarrow> length (raw_data p) = 31) \<and>
            (length ad \<le> 31 \<longrightarrow> raw_data p = ad))"
proof -
  from parse_advertisement_data_raw [OF assms] obtain ad where
    ad: "build_ad_data dev adv = Inr ad" and raw: "raw_data p = take 31 ad"
    by blast
  from build_ad_data_elements [OF ad] obtain nm md where
    el: "add_local_name (device.name dev) [] = Inr nm"
      "map (add_manufacturer_data_item []) (manufacturer_data adv) = map Inr md"
      "ad = [0x02, 0x01, 0x06] @ nm
            @ concat (map (add_service_uuid []) (service_uuids adv))
            @ concat (map (add_service_data_item []) (service_data adv))
            @ concat md"
    by blast
  have f: "take 3 ad = [0x02, 0x01, 0x06]" and l: "3 \<le> length ad"
    using build_ad_data_flags [OF ad] by blast+
  have "take 3 (raw_data p) = [0x02, 0x01, 0x06]" using raw f by (simp add: min_def)
  moreover have "3 \<le> length (raw_data p)" using raw l by simp
  moreover have "length (raw_data p) \<le> 31" using raw by simp
  moreover have "length ad > 31 \<longrightarrow> length (raw_data p) = 31" using raw by simp
  moreover have "length ad \<le> 31 \<longrightarrow> raw_data p = ad" using raw by simp
  ultimately show ?thesis using ad raw el by blast
qed

text \<open>
  For the name of 29 bytes the cut leaves the name element with its length byte 30
  and only 26 bytes of the name; for the name "Test" nothing is cut.
\<close>

theorem payload_flags_first_at_most_31_witness:
  "parse_advertisement_data noon long_name_device (plain_advertisement (- 42))
     = Inr long_name_packet \<and>
   build_ad_data long_name_device (plain_advertisement (- 42)) = Inr long_name_ad_data \<and>
   length long_name_ad_data = 34 \<and>
   take 3 (raw_data long_name_packet) = [0x02, 0x01, 0x06] \<and>
   length (raw_data long_name_packet) = 31 \<and>
   raw_data long_name_packet = take 31 long_name_ad_data \<and>
   parse_advertisement_data noon test_device (plain_advertisement (- 42))
     = Inr (test_packet noon (- 42)) \<and>
   build_ad_data test_device (plain_advertisement (- 42)) = Inr test_raw_data \<and>
   length test_raw_data = 9 \<and>
   raw_data (test_packet noon (- 42)) = test_raw_data"
proof -
  have h: "parse_advertisement_data noon long_name_device (plain_advertisement (- 42))
     = Inr long_name_packet"
    by code_simp
  have b: "build_ad_data long_name_device (plain_advertisement (- 42)) = Inr long_name_ad_data"
    by code_simp
  have h': "parse_advertisement_data noon test_device (plain_advertisement (- 42))
     = Inr (test_packet noon (- 42))"
    by code_simp
  have b': "build_ad_data test_device (plain_advertisement (- 42)) = Inr test_raw_data"
    by code_simp
  from payload_flags_first_at_most_31 [OF h] b
  have 1: "take 3 (raw_data long_name_packet) = [0x02, 0x01, 0x06] \<and>
        length (raw_data long_name_packet) = 31"
    by auto
  from payload_flags_first_at_most_31 [OF h'] b'
  have 2: "raw_data (test_packet noon (- 42)) = test_raw_data"
    by auto
  show ?thesis using h b h' b' 1 2 by simp
qed

text \<open>
  C2. An advertisement that passes the filters and parses to a packet with the
  address and the raw data of a stored packet, the first such packet standing at
  position \<open>i\<close>, leaves the list at its length and every other packet as it is;
  the packet at \<open>i\<close> gets the new time stamp and RSSI and keeps its address, name,
  raw data and command. When no stored packet has that address and those raw
  data, the new packet, with its newly made command, is appended at the end. In a
  list a capture can hold no two packets have the same address and raw data, so
  the first such packet is the only one, and every command is the command of the
  packet's raw data.
\<close>

theorem repeated_observation_updates_in_place:
  assumes "\<not> filtered_out target_names target_addresses dev"
    and "parse_advertisement_data now dev adv = Inr packet"
  shows "(i < length (captured_packets self) \<and>
          address (captured_packets self ! i) = address packet \<and>
          raw_data (captured_packets self ! i) = raw_data packet \<and>
          (\<forall>j<i. \<not> (address (captured_packets self ! j) = address packet \<and>
                     raw_data (captured_packets self ! j) = raw_data packet)) \<longrightarrow>
          (\<exists>self'. detection_callback target_names target_addresses now self dev adv = Inr self' \<and>
             length (captured_packets self') = length (captured_packets self) \<and>
             (\<forall>j<length (captured_packets self). j \<noteq> i \<longrightarrow>
                captured_packets self' ! j = captured_packets self ! j) \<and>
             captured_packets self' ! i =
               (captured_packets self ! i)\<lparr>timestamp := now, rssi := advertisement_data.rssi adv\<rparr> \<and>
             address (captured_packets self' ! i) = address (captured_packets self ! i) \<and>
             name (captured_packets self' ! i) = name (captured_packets self ! i) \<and>
             raw_data (captured_packets self' ! i) = raw_data (captured_packets self ! i) \<and>
             hci_cmd (captured_packets self' ! i) = hci_cmd (captured_packets self ! i))) \<and>
         ((\<forall>q \<in> set (captured_packets self).
              \<not> (address q = address packet \<and> raw_data q = raw_data packet)) \<longrightarrow>
          detection_callback target_names target_addresses now self dev adv =
            Inr (self\<lparr>captured_packets := captured_packets self @ [packet]\<rparr>) \<and>
          hci_cmd packet = hci_cmd_of (raw_data packet)) \<and>
         (reachable self \<longrightarrow>
            distinct (map (\<lambda>q. (address q, raw_data q)) (captured_packets self)) \<and>
            (\<forall>q \<in> set (captured_packets self). hci_cmd q = hci_cmd_of (raw_data q)))"
proof -
  let ?cp = "captured_packets self"
  have ts: "timestamp packet = now" and rs: "rssi packet = advertisement_data.rssi adv"
    using parse_advertisement_data_fields [OF assms(2)] by blast+
  have 1: "\<exists>self'. detection_callback target_names target_addresses now self dev adv = Inr self' \<and>
             length (captured_packets self') = length ?cp \<and>
             (\<forall>j<length ?cp. j \<noteq> i \<longrightarrow> captured_packets self' ! j = ?cp ! j) \<and>
             captured_packets self' ! i =
               (?cp ! i)\<lparr>timestamp := now, rssi := advertisement_data.rssi adv\<rparr> \<and>
             address (captured_packets self' ! i) = address (?cp ! i) \<and>
             name (captured_packets self' ! i) = name (?cp ! i) \<and>
             raw_data (captured_packets self' ! i) = raw_data (?cp ! i) \<and>
             hci_cmd (captured_packets self' ! i) = hci_cmd (?cp ! i)"
    if m: "i < length ?cp \<and> address (?cp ! i) = address packet \<and>
          raw_data (?cp ! i) = raw_data packet \<and>
          (\<forall>j<i. \<not> (address (?cp ! j) = address packet \<and> raw_data (?cp ! j) = raw_data packet))"
  proof -
    have f: "find_existing packet ?cp = Some i" using m unfolding find_existing_Some .
    have i: "i < length ?cp" using m by blast
    have d: "detection_callback target_names target_addresses now self dev adv =
        Inr (self\<lparr>captured_packets :=
               ?cp[i := (?cp ! i)\<lparr>timestamp := now, rssi := advertisement_data.rssi adv\<rparr>]\<rparr>)"
      using assms f ts rs by (simp add: detection_callback_def)
    show ?thesis unfolding d using i by simp
  qed
  have 2: "detection_callback target_names target_addresses now self dev adv =
            Inr (self\<lparr>captured_packets := ?cp @ [packet]\<rparr>) \<and>
          hci_cmd packet = hci_cmd_of (raw_data packet)"
    if n: "\<forall>q \<in> set ?cp. \<not> (address q = address packet \<and> raw_data q = raw_data packet)"
  proof -
    have f: "find_existing packet ?cp = None" using n unfolding find_existing_None .
    have "hci_cmd packet = hci_cmd_of (raw_data packet)"
      using parse_advertisement_data_raw [OF assms(2)] by auto
    then show ?thesis using assms f by (simp add: detection_callback_def)
  qed
  have 3: "distinct (map (\<lambda>q. (address q, raw_data q)) (captured_packets self)) \<and>
            (\<forall>q \<in> set (captured_packets self). hci_cmd q = hci_cmd_of (raw_data q))"
    if "reachable self"
    using reachable_distinct_keys [OF that] reachable_commands [OF that] by blast
  show ?thesis using 1 2 3 by blast
qed

text \<open>
  The device "Test" is seen again half a minute after it was stored behind another
  packet; seen for the first time, its packet goes to the end.
\<close>

theorem repeated_observation_updates_in_place_witness:
  "\<not> filtered_out None None test_device \<and>
   parse_advertisement_data noon test_device (plain_advertisement (- 42))
     = Inr (test_packet noon (- 42)) \<and>
   reachable \<lparr>captured_packets =
       [nameless_packet (lit ''2024-05-01 11:59:00'') (- 70),
        test_packet (lit ''2024-05-01 11:59:30'') (- 60)]\<rparr> \<and>
   (\<exists>self'. detection_callback None None noon
        \<lparr>captured_packets =
           [nameless_packet (lit ''2024-05-01 11:59:00'') (- 70),
            test_packet (lit ''2024-05-01 11:59:30'') (- 60)]\<rparr>
        test_device (plain_advertisement (- 42)) = Inr self' \<and>
      length (captured_packets self') = 2 \<and>
      captured_packets self' ! 0 = nameless_packet (lit ''2024-05-01 11:59:00'') (- 70) \<and>
      captured_packets self' ! 1 = test_packet noon (- 42)) \<and>
   detection_callback None None noon
     \<lparr>captured_packets = [nameless_packet (lit ''2024-05-01 11:59:00'') (- 70)]\<rparr>
     test_device (plain_advertisement (- 42))
   = Inr \<lparr>captured_packets =
            [nameless_packet (lit ''2024-05-01 11:59:00'') (- 70), test_packet noon (- 42)]\<rparr> \<and>
   distinct (map (\<lambda>q. (address q, raw_data q))
     [nameless_packet (lit ''2024-05-01 11:59:00'') (- 70),
      test_packet (lit ''2024-05-01 11:59:30'') (- 60)])"
proof -
  let ?old = "\<lparr>captured_packets =
           [nameless_packet (lit ''2024-05-01 11:59:00'') (- 70),
            test_packet (lit ''2024-05-01 11:59:30'') (- 60)]\<rparr>"
  let ?one = "\<lparr>captured_packets = [nameless_packet (lit ''2024-05-01 11:59:00'') (- 70)]\<rparr>"
  have f: "\<not> filtered_out None None test_device"
    by (simp add: filtered_out_def)
  have h: "parse_advertisement_data noon test_device (plain_advertisement (- 42))
     = Inr (test_packet noon (- 42))"
    by code_simp
  have s1: "detection_callback None None (lit ''2024-05-01 11:59:00'')
      \<lparr>captured_packets = []\<rparr> nameless_device (plain_advertisement (- 70)) = Inr ?one"
    by code_simp
  have s2: "detection_callback None None (lit ''2024-05-01 11:59:30'')
      ?one test_device (plain_advertisement (- 60)) = Inr ?old"
    by code_simp
  have r: "reachable ?old"
    using reachable_step [OF reachable_step [OF reachable_init s1] s2] .
  note t1 = repeated_observation_updates_in_place [OF f h, of 1 ?old]
  note t2 = repeated_observation_updates_in_place [OF f h, of 0 ?one]
  have m: "1 < length (captured_packets ?old) \<and>
      address (captured_packets ?old ! 1) = address (test_packet noon (- 42)) \<and>
      raw_data (captured_packets ?old ! 1) = raw_data (test_packet noon (- 42)) \<and>
      (\<forall>j<1. \<not> (address (captured_packets ?old ! j) = address (test_packet noon (- 42)) \<and>
         raw_data (captured_packets ?old ! j) = raw_data (test_packet noon (- 42))))"
    by (simp add: lit_def)
  have n: "\<forall>q \<in> set (captured_packets ?one).
      \<not> (address q = address (test_packet noon (- 42)) \<and>
         raw_data q = raw_data (test_packet noon (- 42)))"
    by (simp add: lit_def)
  have u: "\<exists>self'. detection_callback None None noon ?old
        test_device (plain_advertisement (- 42)) = Inr self' \<and>
      length (captured_packets self') = 2 \<and>
      captured_packets self' ! 0 = nameless_packet (lit ''2024-05-01 11:59:00'') (- 70) \<and>
      captured_packets self' ! 1 = test_packet noon (- 42)"
    using t1 [THEN conjunct1, THEN mp, OF m] by auto
  have a: "detection_callback None None noon ?one
     test_device (plain_advertisement (- 42))
   = Inr \<lparr>captured_packets =
            [nameless_packet (lit ''2024-05-01 11:59:00'') (- 70), test_packet noon (- 42)]\<rparr>"
    using t2 [THEN conjunct2, THEN conjunct1, THEN mp, OF n] by simp
  have "distinct (map (\<lambda>q. (address q, raw_data q)) (captured_packets ?old))"
    using t1 [THEN conjunct2, THEN conjunct2, THEN mp, OF r, THEN conjunct1] .
  then have d: "distinct (map (\<lambda>q. (address q, raw_data q))
     [nameless_packet (lit ''2024-05-01 11:59:00'') (- 70),
      test_packet (lit ''2024-05-01 11:59:30'') (- 60)])"
    by (simp del: distinct.simps map_eq_conv list.map)
  show ?thesis by (intro conjI f h r u a d)
qed

text \<open>
  C3. For every observation, that is for a name without surrogates and company
  identifiers of 16 bits, the method returns a packet, whatever the strings among
  the service UUIDs and the keys of the service data are. An entry of
  \<^verbatim>\<open>service_uuids\<close> or a key of \<^verbatim>\<open>service_data\<close> that does not parse appends
  nothing, and the loop goes on as if the entry were not in the list.
\<close>

theorem returns_and_skips_unparsed_uuids:
  "((\<forall>n. device.name dev = Some n \<longrightarrow> (\<forall>c \<in> set n. \<not> (0xD800 \<le> c \<and> c < 0xE000))) \<and>
    (\<forall>(c, d) \<in> set (manufacturer_data adv). 0 \<le> c \<and> c \<le> 0xFFFF) \<longrightarrow>
      (\<exists>p. parse_advertisement_data now dev adv = Inr p)) \<and>
   ((if length s = 36 then int_base_16 (split_first 0x2D s) else int_base_16 s) = None \<longrightarrow>
      add_service_uuid ad s = ad \<and>
      add_service_uuids (xs @ s # ys) ad = add_service_uuids (xs @ ys) ad) \<and>
   (int_base_16 (split_first 0x2D u) = None \<longrightarrow>
      add_service_data_item ad (u, d) = ad \<and>
      add_service_data (items1 @ (u, d) # items2) ad = add_service_data (items1 @ items2) ad)"
proof -
  have 1: "\<exists>p. parse_advertisement_data now dev adv = Inr p"
    if "(\<forall>n. device.name dev = Some n \<longrightarrow> (\<forall>c \<in> set n. \<not> (0xD800 \<le> c \<and> c < 0xE000))) \<and>
        (\<forall>(c, d) \<in> set (manufacturer_data adv). 0 \<le> c \<and> c \<le> 0xFFFF)"
  proof -
    have "(\<forall>n. device.name dev = Some n \<longrightarrow> (\<forall>c \<in> set n. \<not> (0xD800 \<le> c \<and> c < 0xE000))) \<and>
      (\<forall>(c, d) \<in> set (manufacturer_data adv).
         2 + int (length d) + 1 \<le> 31 \<longrightarrow> 0 \<le> c \<and> c \<le> 0xFFFF)"
      using that by fast
    then show ?thesis
      unfolding parse_advertisement_data_returns_iff build_ad_data_returns_iff .
  qed
  have 2: "add_service_uuid ad s = ad \<and>
      add_service_uuids (xs @ s # ys) ad = add_service_uuids (xs @ ys) ad"
    if "(if length s = 36 then int_base_16 (split_first 0x2D s) else int_base_16 s) = None"
  proof -
    have "add_service_uuid a s = a" for a
      using that add_service_uuid_unparsed_36 [of s a] add_service_uuid_unparsed_short [of s a]
      by (cases "length s = 36") simp_all
    then show ?thesis using add_service_uuids_skip [of s xs ys ad] by simp
  qed
  have 3: "add_service_data_item ad (u, d) = ad \<and>
      add_service_data (items1 @ (u, d) # items2) ad = add_service_data (items1 @ items2) ad"
    if "int_base_16 (split_first 0x2D u) = None"
    using that add_service_data_skip [of "(u, d)" items1 items2 ad]
    by (simp add: add_service_data_item_unparsed)
  show ?thesis using 1 2 3 by blast
qed

text \<open>
  An observation with an Apple manufacturer entry, a service UUID and a service-data
  key that are no hexadecimal numbers, and the battery service beside each.
\<close>

theorem returns_and_skips_unparsed_uuids_witness:
  "list_all (\<lambda>c. \<not> (0xD800 \<le> c \<and> c < 0xE000)) (lit ''Test'') \<and>
   list_all (\<lambda>(c, d). 0 \<le> c \<and> c \<le> 0xFFFF) [(0x004C :: int, [0x02, 0x15 :: byte])] \<and>
   (\<exists>p. parse_advertisement_data noon test_device
      \<lparr>advertisement_data.rssi = - 42, service_uuids = [lit ''zz'', battery_uuid],
        service_data = [(lit ''battery'', [0x64]), (battery_uuid, [0x64])],
        manufacturer_data = [(0x004C, [0x02, 0x15])]\<rparr>
    = Inr p) \<and>
   int_base_16 (lit ''zz'') = None \<and>
   add_service_uuid [0x02, 0x01, 0x06] (lit ''zz'') = [0x02, 0x01, 0x06] \<and>
   add_service_uuids [lit ''zz'', battery_uuid] [0x02, 0x01, 0x06]
     = add_service_uuids [battery_uuid] [0x02, 0x01, 0x06] \<and>
   int_base_16 (split_first 0x2D (lit ''battery'')) = None \<and>
   add_service_data_item [0x02, 0x01, 0x06] (lit ''battery'', [0x64]) = [0x02, 0x01, 0x06] \<and>
   add_service_data [(lit ''battery'', [0x64]), (battery_uuid, [0x64])] [0x02, 0x01, 0x06]
     = add_service_data [(battery_uuid, [0x64])] [0x02, 0x01, 0x06]"
proof -
  let ?adv = "\<lparr>advertisement_data.rssi = - 42, service_uuids = [lit ''zz'', battery_uuid],
        service_data = [(lit ''battery'', [0x64]), (battery_uuid, [0x64])],
        manufacturer_data = [(0x004C, [0x02, 0x15])]\<rparr>"
  have n: "list_all (\<lambda>c. \<not> (0xD800 \<le> c \<and> c < 0xE000)) (lit ''Test'')"
    by (simp add: lit_def)
  have m: "list_all (\<lambda>(c, d). 0 \<le> c \<and> c \<le> 0xFFFF) [(0x004C :: int, [0x02, 0x15 :: byte])]"
    by simp
  have z: "int_base_16 (lit ''zz'') = None" by code_simp
  have b: "int_base_16 (split_first 0x2D (lit ''battery'')) = None" by code_simp
  have zl: "(if length (lit ''zz'') = 36 then int_base_16 (split_first 0x2D (lit ''zz''))
             else int_base_16 (lit ''zz'')) = None"
    using z by (simp add: lit_def)
  note t = returns_and_skips_unparsed_uuids
    [of test_device ?adv noon "lit ''zz''" "[0x02, 0x01, 0x06]" "[]" "[battery_uuid]"
      "lit ''battery''" "[0x64]" "[]" "[(battery_uuid, [0x64])]"]
  have cond: "(\<forall>n. device.name test_device = Some n \<longrightarrow>
           (\<forall>c \<in> set n. \<not> (0xD800 \<le> c \<and> c < 0xE000))) \<and>
      (\<forall>(c, d) \<in> set (manufacturer_data ?adv). 0 \<le> c \<and> c \<le> 0xFFFF)"
    using n by (simp add: list_all_iff)
  have "\<exists>p. parse_advertisement_data noon test_device ?adv = Inr p"
    using t [THEN conjunct1, THEN mp, OF cond] .
  moreover have "add_service_uuid [0x02, 0x01, 0x06] (lit ''zz'') = [0x02, 0x01, 0x06] \<and>
   add_service_uuids ([] @ lit ''zz'' # [battery_uuid]) [0x02, 0x01, 0x06]
     = add_service_uuids ([] @ [battery_uuid]) [0x02, 0x01, 0x06]"
    using t [THEN conjunct2, THEN conjunct1, THEN mp, OF zl] .
  moreover have "add_service_data_item [0x02, 0x01, 0x06] (lit ''battery'', [0x64])
      = [0x02, 0x01, 0x06] \<and>
   add_service_data ([] @ (lit ''battery'', [0x64]) # [(battery_uuid, [0x64])]) [0x02, 0x01, 0x06]
     = add_service_data ([] @ [(battery_uuid, [0x64])]) [0x02, 0x01, 0x06]"
    using t [THEN conjunct2, THEN conjunct2, THEN mp, OF b] .
  ultimately show ?thesis using n m z b by simp
qed

text \<open>
  C4, as amended. The command of every packet the method returns splits at white
  space into the seven words of the fixed part, the last two of them the opcode
  pair 0x08 and 0x0008, and after them exactly 32 words (one for the length and 31
  for the data), each of two upper-case hexadecimal digits, whatever the length of
  the raw data.
\<close>

theorem command_has_32_tokens:
  assumes "parse_advertisement_data now dev adv = Inr p"
  shows "split_ws (hci_cmd p) =
           map lit [''sudo'', ''hcitool'', ''-i'', ''hci0'', ''cmd'', ''0x08'', ''0x0008'']
           @ hci_params (raw_data p) \<and>
         length (hci_params (raw_data p)) = 32 \<and>
         (\<forall>t \<in> set (hci_params (raw_data p)).
            length t = 2 \<and> set t \<subseteq> set (lit ''0123456789ABCDEF''))"
proof -
  from parse_advertisement_data_raw [OF assms] obtain ad where
    raw: "raw_data p = take 31 ad" and cmd: "hci_cmd p = hci_cmd_of (take 31 ad)"
    by blast
  have r: "length (raw_data p) \<le> 31" "\<forall>b \<in> set (raw_data p). 0 \<le> b \<and> b < 256"
    using parse_advertisement_data_range [OF assms] by blast+
  have "hci_cmd p = hci_cmd_of (raw_data p)" using raw cmd by simp
  then have "split_ws (hci_cmd p) =
           map lit [''sudo'', ''hcitool'', ''-i'', ''hci0'', ''cmd'', ''0x08'', ''0x0008'']
           @ hci_params (raw_data p)"
    using split_ws_hci_cmd_of [OF r] by simp
  moreover have "length (hci_params (raw_data p)) = 32"
    using hci_params_length [OF r(1)] .
  moreover have "\<forall>t \<in> set (hci_params (raw_data p)).
            length t = 2 \<and> set t \<subseteq> set (lit ''0123456789ABCDEF'')"
    using hci_params_tokens [OF r] by blast
  ultimately show ?thesis by blast
qed

text \<open>
  The claim as stated fails: for the device "Test" the words after the opcode pair
  are the 32 words below, not 33.
\<close>

theorem command_has_32_tokens_counterexample:
  "parse_advertisement_data noon test_device (plain_advertisement (- 42))
     = Inr (test_packet noon (- 42)) \<and>
   drop 7 (split_ws (hci_cmd (test_packet noon (- 42))))
     = map lit [''09'', ''02'', ''01'', ''06'', ''05'', ''09'', ''54'', ''65'', ''73'', ''74'',
         ''00'', ''00'', ''00'', ''00'', ''00'', ''00'', ''00'', ''00'', ''00'', ''00'', ''00'',
         ''00'', ''00'', ''00'', ''00'', ''00'', ''00'', ''00'', ''00'', ''00'', ''00'', ''00''] \<and>
   length (drop 7 (split_ws (hci_cmd (test_packet noon (- 42))))) \<noteq> 33"
proof -
  have h: "parse_advertisement_data noon test_device (plain_advertisement (- 42))
     = Inr (test_packet noon (- 42))"
    by code_simp
  have r: "length test_raw_data \<le> 31" "\<forall>b \<in> set test_raw_data. 0 \<le> b \<and> b < 256"
    by simp_all
  have c: "test_command = hci_cmd_of test_raw_data"
    by code_simp
  have p: "hci_params test_raw_data
     = map lit [''09'', ''02'', ''01'', ''06'', ''05'', ''09'', ''54'', ''65'', ''73'', ''74'',
         ''00'', ''00'', ''00'', ''00'', ''00'', ''00'', ''00'', ''00'', ''00'', ''00'', ''00'',
         ''00'', ''00'', ''00'', ''00'', ''00'', ''00'', ''00'', ''00'', ''00'', ''00'', ''00'']"
    by code_simp
  have "drop 7 (split_ws test_command)
     = map lit [''09'', ''02'', ''01'', ''06'', ''05'', ''09'', ''54'', ''65'', ''73'', ''74'',
         ''00'', ''00'', ''00'', ''00'', ''00'', ''00'', ''00'', ''00'', ''00'', ''00'', ''00'',
         ''00'', ''00'', ''00'', ''00'', ''00'', ''00'', ''00'', ''00'', ''00'', ''00'', ''00'']"
    unfolding c split_ws_hci_cmd_of [OF r] p by simp
  then show ?thesis using h by simp
qed

theorem command_has_32_tokens_witness:
  "parse_advertisement_data noon test_device (plain_advertisement (- 42))
     = Inr (test_packet noon (- 42)) \<and>
   split_ws (hci_cmd (test_packet noon (- 42)))
     = map lit [''sudo'', ''hcitool'', ''-i'', ''hci0'', ''cmd'', ''0x08'', ''0x0008'']
       @ hci_params test_raw_data \<and>
   length (hci_params test_raw_data) = 32"
proof -
  have h: "parse_advertisement_data noon test_device (plain_advertisement (- 42))
     = Inr (test_packet noon (- 42))"
    by code_simp
  show ?thesis using command_has_32_tokens [OF h] h by simp
qed

text \<open>
  C5. A packet that has no command yet gets none exactly for an empty list. For a
  list of 1 to 31 bytes the command is the fixed text up to the opcode pair 0x08
  0x0008, then, each after a single blank and each as two upper-case hexadecimal
  digits, the length of the list and the 31 bytes of the list filled up with
  zeros. For the name "Test" and nothing else the raw data are 02 01 06 05 09 54
  65 73 74 and the command ends with 09, these nine bytes and 22 zero bytes.
\<close>

theorem command_format:
  "(hci_cmd info = [] \<longrightarrow> (hci_cmd (generate_command ad info) = [] \<longleftrightarrow> ad = [])) \<and>
   (ad \<noteq> [] \<and> length ad \<le> 31 \<and> (\<forall>b \<in> set ad. 0 \<le> b \<and> b < 256) \<longrightarrow>
      hci_cmd (generate_command ad info) =
        lit ''sudo hcitool -i hci0 cmd 0x08 0x0008'' @
        concat (map (\<lambda>b. [0x20, lit ''0123456789ABCDEF'' ! (nat b div 16),
                            lit ''0123456789ABCDEF'' ! (nat b mod 16)])
                  (int (length ad) # ad @ replicate (31 - length ad) 0)) \<and>
      length (ad @ replicate (31 - length ad) 0) = 31 \<and>
      raw_data (generate_command ad info) = ad) \<and>
   parse_advertisement_data now test_device (plain_advertisement (- 42))
     = Inr \<lparr>timestamp = now, address = lit ''AA:BB:CC:DD:EE:FF'', name = lit ''Test'',
            rssi = - 42,
            raw_data = [0x02, 0x01, 0x06, 0x05, 0x09, 0x54, 0x65, 0x73, 0x74],
            hci_cmd = lit ''sudo hcitool -i hci0 cmd 0x08 0x0008 09 02 01 06 05 09 54 65 73 74 00 00 00 00 00 00 00 00 00 00 00 00 00 00 00 00 00 00 00 00 00 00''\<rparr>"
proof -
  have 1: "hci_cmd (generate_command ad info) = [] \<longleftrightarrow> ad = []" if "hci_cmd info = []"
    using that hci_cmd_of_nonempty [of ad] by (simp add: generate_command_def)
  have 2: "hci_cmd (generate_command ad info) =
        lit ''sudo hcitool -i hci0 cmd 0x08 0x0008'' @
        concat (map (\<lambda>b. [0x20, lit ''0123456789ABCDEF'' ! (nat b div 16),
                            lit ''0123456789ABCDEF'' ! (nat b mod 16)])
                  (int (length ad) # ad @ replicate (31 - length ad) 0)) \<and>
      length (ad @ replicate (31 - length ad) 0) = 31 \<and>
      raw_data (generate_command ad info) = ad"
    if "ad \<noteq> [] \<and> length ad \<le> 31 \<and> (\<forall>b \<in> set ad. 0 \<le> b \<and> b < 256)"
    using that hci_cmd_of_bytes [of ad] by (simp add: generate_command_def)
  have 3: "parse_advertisement_data now test_device (plain_advertisement (- 42))
     = Inr (test_packet now (- 42))"
    by code_simp
  show ?thesis using 1 2 3 by blast
qed

text \<open>The packet of a device without a name, before and after lines 82 to 91.\<close>

theorem command_format_witness:
  "hci_cmd (nameless_packet noon (- 70)\<lparr>raw_data := [], hci_cmd := []\<rparr>) = [] \<and>
   hci_cmd (generate_command [] (nameless_packet noon (- 70)\<lparr>raw_data := [], hci_cmd := []\<rparr>))
     = [] \<and>
   generate_command [0x02, 0x01, 0x06]
       (nameless_packet noon (- 70)\<lparr>raw_data := [], hci_cmd := []\<rparr>)
     = nameless_packet noon (- 70)"
proof -
  let ?info = "nameless_packet noon (- 70)\<lparr>raw_data := [], hci_cmd := []\<rparr>"
  have a: "hci_cmd ?info = []"
    by simp
  have b: "[0x02, 0x01, 0x06] \<noteq> [] \<and> length [0x02, 0x01, 0x06 :: int] \<le> 31 \<and>
      (\<forall>b \<in> set [0x02, 0x01, 0x06 :: int]. 0 \<le> b \<and> b < 256)"
    by simp
  have e: "lit ''sudo hcitool -i hci0 cmd 0x08 0x0008'' @
        concat (map (\<lambda>b. [0x20, lit ''0123456789ABCDEF'' ! (nat b div 16),
                            lit ''0123456789ABCDEF'' ! (nat b mod 16)])
                  (int (length [0x02, 0x01, 0x06 :: int]) # [0x02, 0x01, 0x06]
                     @ replicate (31 - length [0x02, 0x01, 0x06 :: int]) 0))
      = flags_command"
    by code_simp
  note t1 = command_format [of ?info "[]" noon]
  note t2 = command_format [of ?info "[0x02, 0x01, 0x06]" noon]
  have 1: "hci_cmd (generate_command [] ?info) = []"
    using t1 [THEN conjunct1, THEN mp, OF a] by simp
  have "hci_cmd (generate_command [0x02, 0x01, 0x06] ?info) = flags_command \<and>
      raw_data (generate_command [0x02, 0x01, 0x06] ?info) = [0x02, 0x01, 0x06]"
    using t2 [THEN conjunct2, THEN conjunct1, THEN mp, OF b] unfolding e by blast
  then have 2: "generate_command [0x02, 0x01, 0x06] ?info = nameless_packet noon (- 70)"
    by (simp add: generate_command_def)
  show ?thesis using a 1 2 by blast
qed

text \<open>
  C6. A service UUID string of 36 characters is read up to its first dash, any other
  string as a whole, as a hexadecimal number of which the low 16 bits are kept. A
  string that parses appends the four bytes 03 03 and the two bytes of that number,
  low byte first; the strings of the list contribute one after the other. The string
  \<^verbatim>\<open>0000180f-0000-1000-8000-00805f9b34fb\<close> parses to \<^verbatim>\<open>0x180F\<close> and gives 03 03 0F 18.
\<close>

theorem service_uuid_element:
  "(length s = 36 \<and> int_base_16 (split_first 0x2D s) = Some n \<longrightarrow>
      add_service_uuid ad s =
        ad @ [0x03, 0x03, (n AND 0xFFFF) mod 256, (n AND 0xFFFF) div 256]) \<and>
   (length s \<noteq> 36 \<and> int_base_16 s = Some n \<longrightarrow>
      add_service_uuid ad s =
        ad @ [0x03, 0x03, (n AND 0xFFFF) mod 256, (n AND 0xFFFF) div 256]) \<and>
   n AND 0xFFFF = n mod 65536 \<and>
   add_service_uuids uuids ad = ad @ concat (map (add_service_uuid []) uuids) \<and>
   int_base_16 (split_first 0x2D (lit ''0000180f-0000-1000-8000-00805f9b34fb'')) = Some 0x180F \<and>
   add_service_uuid [] (lit ''0000180f-0000-1000-8000-00805f9b34fb'') = [0x03, 0x03, 0x0F, 0x18]"
proof -
  have "int_base_16 (split_first 0x2D battery_uuid) = Some 0x180F"
    by code_simp
  moreover have "add_service_uuid [] battery_uuid = [0x03, 0x03, 0x0F, 0x18]"
    by code_simp
  ultimately show ?thesis
    using add_service_uuid_36 [of s n ad] add_service_uuid_short [of s n ad]
      add_service_uuids_concat [of uuids ad] and_ffff [of n]
    by blast
qed

text \<open>The long form and the short form \<^verbatim>\<open>2A19\<close>, each after the flags.\<close>

theorem service_uuid_element_witness:
  "length battery_uuid = 36 \<and>
   int_base_16 (split_first 0x2D battery_uuid) = Some 0x180F \<and>
   add_service_uuid [0x02, 0x01, 0x06] battery_uuid
     = [0x02, 0x01, 0x06, 0x03, 0x03, 0x0F, 0x18] \<and>
   length (lit ''2A19'') \<noteq> 36 \<and> int_base_16 (lit ''2A19'') = Some 0x2A19 \<and>
   add_service_uuid [0x02, 0x01, 0x06] (lit ''2A19'') = [0x02, 0x01, 0x06, 0x03, 0x03, 0x19, 0x2A]"
proof -
  have a: "length battery_uuid = 36" by (simp add: lit_def)
  have b: "int_base_16 (split_first 0x2D battery_uuid) = Some 0x180F" by code_simp
  have c: "length (lit ''2A19'') \<noteq> 36" by (simp add: lit_def)
  have d: "int_base_16 (lit ''2A19'') = Some 0x2A19" by code_simp
  note t1 = service_uuid_element [of battery_uuid "0x180F" "[0x02, 0x01, 0x06]" "[]"]
  note t2 = service_uuid_element [of "lit ''2A19''" "0x2A19" "[0x02, 0x01, 0x06]" "[]"]
  have "add_service_uuid [0x02, 0x01, 0x06] battery_uuid
     = [0x02, 0x01, 0x06] @ [0x03, 0x03, (0x180F AND 0xFFFF) mod 256, (0x180F AND 0xFFFF) div 256]"
    using t1 [THEN conjunct1, THEN mp, OF conjI [OF a b]] .
  moreover have "add_service_uuid [0x02, 0x01, 0x06] (lit ''2A19'')
     = [0x02, 0x01, 0x06] @ [0x03, 0x03, (0x2A19 AND 0xFFFF) mod 256, (0x2A19 AND 0xFFFF) div 256]"
    using t2 [THEN conjunct2, THEN conjunct1, THEN mp, OF conjI [OF c d]] .
  ultimately show ?thesis using a b c d by simp
qed

text \<open>
  C7, as amended. A service-data pair whose key parses, and a manufacturer-data pair
  whose company identifier lies between 0 and 65535, appends an element exactly when
  2 + len(data) + 1 is at most 31, and otherwise leaves the list as it is: the
  element is that length, the type byte 16 or FF, the two bytes of the UUID or of
  the identifier, low byte first, and the data. A service-data pair whose key does
  not parse appends nothing, whatever its length. The pairs contribute one after
  the other.
\<close>

theorem data_element_iff_fits:
  "(int_base_16 (split_first 0x2D u) = Some n \<longrightarrow>
      add_service_data_item ad (u, d) =
        (if 2 + int (length d) + 1 \<le> 31
         then ad @ [2 + int (length d) + 1, 0x16, (n AND 0xFFFF) mod 256, (n AND 0xFFFF) div 256]
                 @ map uint d
         else ad)) \<and>
   (int_base_16 (split_first 0x2D u) = None \<longrightarrow> add_service_data_item ad (u, d) = ad) \<and>
   (0 \<le> c \<and> c \<le> 0xFFFF \<longrightarrow>
      add_manufacturer_data_item ad (c, d) =
        Inr (if 2 + int (length d) + 1 \<le> 31
             then ad @ [2 + int (length d) + 1, 0xFF, c mod 256, c div 256] @ map uint d
             else ad)) \<and>
   add_service_data items ad = ad @ concat (map (add_service_data_item []) items) \<and>
   (add_manufacturer_data mitems ad = Inr r \<longrightarrow>
      (\<exists>els. map (add_manufacturer_data_item []) mitems = map Inr els \<and> r = ad @ concat els))"
  using add_service_data_item_parsed [of u n ad d] add_service_data_item_unparsed [of u ad d]
    add_manufacturer_data_item_ok [of c ad d] add_service_data_concat [of items ad]
    add_manufacturer_data_concat [of mitems ad r]
  by blast

text \<open>
  The claim as stated fails for a service-data pair whose key is no hexadecimal
  number: its length 2 + 1 + 1 is at most 31, and no element is appended.
\<close>

theorem data_element_iff_fits_counterexample:
  "2 + int (length [0x64 :: byte]) + 1 \<le> 31 \<and>
   build_ad_data nameless_device
     \<lparr>advertisement_data.rssi = - 70, service_uuids = [],
       service_data = [(lit ''battery'', [0x64])], manufacturer_data = []\<rparr>
   = Inr [0x02, 0x01, 0x06]"
proof -
  have "build_ad_data nameless_device
     \<lparr>advertisement_data.rssi = - 70, service_uuids = [],
       service_data = [(lit ''battery'', [0x64])], manufacturer_data = []\<rparr>
   = Inr [0x02, 0x01, 0x06]"
    by code_simp
  then show ?thesis by simp
qed

text \<open>
  The battery level under the battery service and an Apple manufacturer entry, each
  with data that fit and with 29 bytes of data, which do not.
\<close>

theorem data_element_iff_fits_witness:
  "int_base_16 (split_first 0x2D battery_uuid) = Some 0x180F \<and>
   add_service_data_item [0x02, 0x01, 0x06] (battery_uuid, [0x64])
     = [0x02, 0x01, 0x06, 0x04, 0x16, 0x0F, 0x18, 0x64] \<and>
   add_service_data_item [0x02, 0x01, 0x06] (battery_uuid, replicate 29 0x64)
     = [0x02, 0x01, 0x06] \<and>
   int_base_16 (split_first 0x2D (lit ''battery'')) = None \<and>
   add_service_data_item [0x02, 0x01, 0x06] (lit ''battery'', [0x64]) = [0x02, 0x01, 0x06] \<and>
   add_manufacturer_data_item [0x02, 0x01, 0x06] (0x004C, [0x02, 0x15])
     = Inr [0x02, 0x01, 0x06, 0x05, 0xFF, 0x4C, 0x00, 0x02, 0x15] \<and>
   add_manufacturer_data_item [0x02, 0x01, 0x06] (0x004C, replicate 29 0x02)
     = Inr [0x02, 0x01, 0x06] \<and>
   add_manufacturer_data [(0x004C, [0x02, 0x15])] [0x02, 0x01, 0x06]
     = Inr [0x02, 0x01, 0x06, 0x05, 0xFF, 0x4C, 0x00, 0x02, 0x15] \<and>
   (\<exists>els. map (add_manufacturer_data_item []) [(0x004C, [0x02, 0x15])] = map Inr els \<and>
      [0x02, 0x01, 0x06, 0x05, 0xFF, 0x4C, 0x00, 0x02, 0x15] = [0x02, 0x01, 0x06] @ concat els)"
proof -
  have a: "int_base_16 (split_first 0x2D battery_uuid) = Some 0x180F" by code_simp
  have b: "int_base_16 (split_first 0x2D (lit ''battery'')) = None" by code_simp
  have c: "0 \<le> (0x004C :: int) \<and> (0x004C :: int) \<le> 0xFFFF" by simp
  note t1 = data_element_iff_fits
    [of battery_uuid "0x180F" "[0x02, 0x01, 0x06]" "[0x64]" "0x004C" "[]" "[]"]
  note t2 = data_element_iff_fits
    [of battery_uuid "0x180F" "[0x02, 0x01, 0x06]" "replicate 29 0x64" "0x004C" "[]" "[]"]
  note t3 = data_element_iff_fits
    [of "lit ''battery''" 0 "[0x02, 0x01, 0x06]" "[0x64]" "0x004C" "[]" "[]"]
  note t4 = data_element_iff_fits
    [of "lit ''battery''" 0 "[0x02, 0x01, 0x06]" "[0x02, 0x15]" "0x004C" "[]" "[]"]
  note t5 = data_element_iff_fits
    [of "lit ''battery''" 0 "[0x02, 0x01, 0x06]" "replicate 29 0x02" "0x004C" "[]" "[]"]
  note t6 = data_element_iff_fits
    [of "lit ''battery''" 0 "[0x02, 0x01, 0x06]" "[]" "0x004C" "[]" "[(0x004C, [0x02, 0x15])]"
      "[0x02, 0x01, 0x06, 0x05, 0xFF, 0x4C, 0x00, 0x02, 0x15]"]
  have m: "add_manufacturer_data [(0x004C, [0x02, 0x15])] [0x02, 0x01, 0x06]
     = Inr [0x02, 0x01, 0x06, 0x05, 0xFF, 0x4C, 0x00, 0x02, 0x15]"
    by code_simp
  have l: "\<exists>els. map (add_manufacturer_data_item []) [(0x004C, [0x02, 0x15])] = map Inr els \<and>
      [0x02, 0x01, 0x06, 0x05, 0xFF, 0x4C, 0x00, 0x02, 0x15] = [0x02, 0x01, 0x06] @ concat els"
    using t6 [THEN conjunct2, THEN conjunct2, THEN conjunct2, THEN conjunct2, THEN mp, OF m] .
  have "add_service_data_item [0x02, 0x01, 0x06] (battery_uuid, [0x64])
     = [0x02, 0x01, 0x06, 0x04, 0x16, 0x0F, 0x18, 0x64]"
    using t1 [THEN conjunct1, THEN mp, OF a] by simp
  moreover have "add_service_data_item [0x02, 0x01, 0x06] (battery_uuid, replicate 29 0x64)
     = [0x02, 0x01, 0x06]"
    using t2 [THEN conjunct1, THEN mp, OF a] by simp
  moreover have "add_service_data_item [0x02, 0x01, 0x06] (lit ''battery'', [0x64])
     = [0x02, 0x01, 0x06]"
    using t3 [THEN conjunct2, THEN conjunct1, THEN mp, OF b] .
  moreover have "add_manufacturer_data_item [0x02, 0x01, 0x06] (0x004C, [0x02, 0x15])
     = Inr [0x02, 0x01, 0x06, 0x05, 0xFF, 0x4C, 0x00, 0x02, 0x15]"
    using t4 [THEN conjunct2, THEN conjunct2, THEN conjunct1, THEN mp, OF c] by simp
  moreover have "add_manufacturer_data_item [0x02, 0x01, 0x06] (0x004C, replicate 29 0x02)
     = Inr [0x02, 0x01, 0x06]"
    using t5 [THEN conjunct2, THEN conjunct2, THEN conjunct1, THEN mp, OF c] by simp
  ultimately show ?thesis using a b m l by blast
qed

text \<open>
  C8. The local name element is appended exactly for a name that is present and not
  empty: an absent name and an empty name leave the list as it is, and a name with
  the UTF-8 bytes \<open>b\<close> appends the length byte, the type byte 09 and the first 29
  bytes of \<open>b\<close>, of which there is at least one; the length byte is their number
  plus one. The element follows the flags directly.
\<close>

theorem local_name_element:
  "add_local_name None ad = Inr ad \<and>
   add_local_name (Some []) ad = Inr ad \<and>
   (n \<noteq> [] \<and> encode_utf8 n = Inr b \<longrightarrow>
      add_local_name (Some n) ad =
        Inr (ad @ [int (length (take 29 b)) + 1, 0x09] @ map uint (take 29 b)) \<and>
      0 < length (take 29 b) \<and> length (take 29 b) \<le> 29 \<and>
      (device.name dev = Some n \<longrightarrow>
         build_ad_data dev adv =
           add_manufacturer_data (manufacturer_data adv)
             (add_service_data (service_data adv)
               (add_service_uuids (service_uuids adv)
                 ([0x02, 0x01, 0x06] @ [int (length (take 29 b)) + 1, 0x09]
                    @ map uint (take 29 b)))))) \<and>
   (device.name dev = None \<or> device.name dev = Some [] \<longrightarrow>
      build_ad_data dev adv =
        add_manufacturer_data (manufacturer_data adv)
          (add_service_data (service_data adv)
            (add_service_uuids (service_uuids adv) [0x02, 0x01, 0x06])))"
proof -
  have 1: "add_local_name None ad = Inr ad" by (rule add_local_name_absent)
  have 2: "add_local_name (Some []) ad = Inr ad" by (rule add_local_name_empty)
  have 3: "add_local_name (Some n) ad =
        Inr (ad @ [int (length (take 29 b)) + 1, 0x09] @ map uint (take 29 b)) \<and>
      0 < length (take 29 b) \<and> length (take 29 b) \<le> 29 \<and>
      (device.name dev = Some n \<longrightarrow>
         build_ad_data dev adv =
           add_manufacturer_data (manufacturer_data adv)
             (add_service_data (service_data adv)
               (add_service_uuids (service_uuids adv)
                 ([0x02, 0x01, 0x06] @ [int (length (take 29 b)) + 1, 0x09]
                    @ map uint (take 29 b)))))"
    if n: "n \<noteq> []" and b: "encode_utf8 n = Inr b"
  proof -
    have "b \<noteq> []" using n b encode_utf8_nonempty by blast
    then have "0 < length (take 29 b)" by (cases b) simp_all
    moreover have "length (take 29 b) \<le> 29" by simp
    moreover have "build_ad_data dev adv =
           add_manufacturer_data (manufacturer_data adv)
             (add_service_data (service_data adv)
               (add_service_uuids (service_uuids adv)
                 ([0x02, 0x01, 0x06] @ [int (length (take 29 b)) + 1, 0x09]
                    @ map uint (take 29 b))))"
      if "device.name dev = Some n"
      using that add_local_name_present [OF n b, of "add_flags []"]
      by (simp add: build_ad_data_def add_flags_def)
    ultimately show ?thesis using add_local_name_present [OF n b, of ad] by blast
  qed
  have 4: "build_ad_data dev adv =
        add_manufacturer_data (manufacturer_data adv)
          (add_service_data (service_data adv)
            (add_service_uuids (service_uuids adv) [0x02, 0x01, 0x06]))"
    if "device.name dev = None \<or> device.name dev = Some []"
    using that
    by (auto simp: build_ad_data_def add_flags_def add_local_name_absent add_local_name_empty)
  show ?thesis using 1 2 3 4 by blast
qed

text \<open>
  The name Cafe with an acute accent on the e has four characters and five bytes in
  UTF-8; the device "Test" gets the flags and its name; the device without a name
  gets the flags only.
\<close>

theorem local_name_element_witness:
  "[0x43, 0x61, 0x66, 0xE9] \<noteq> ([] :: str) \<and>
   encode_utf8 [0x43, 0x61, 0x66, 0xE9] = Inr [0x43, 0x61, 0x66, 0xC3, 0xA9] \<and>
   add_local_name (Some [0x43, 0x61, 0x66, 0xE9]) [0x02, 0x01, 0x06]
     = Inr [0x02, 0x01, 0x06, 0x06, 0x09, 0x43, 0x61, 0x66, 0xC3, 0xA9] \<and>
   encode_utf8 (lit ''Test'') = Inr [0x54, 0x65, 0x73, 0x74] \<and>
   build_ad_data test_device (plain_advertisement (- 42))
     = Inr [0x02, 0x01, 0x06, 0x05, 0x09, 0x54, 0x65, 0x73, 0x74] \<and>
   build_ad_data nameless_device (plain_advertisement (- 70)) = Inr [0x02, 0x01, 0x06]"
proof -
  have a: "[0x43, 0x61, 0x66, 0xE9] \<noteq> ([] :: str)" by simp
  have b: "encode_utf8 [0x43, 0x61, 0x66, 0xE9] = Inr [0x43, 0x61, 0x66, 0xC3, 0xA9]"
    by code_simp
  note t1 = local_name_element [of "[0x02, 0x01, 0x06]" "[0x43, 0x61, 0x66, 0xE9]"
      "[0x43, 0x61, 0x66, 0xC3, 0xA9]" nameless_device "plain_advertisement (- 70)"]
  have "add_local_name (Some [0x43, 0x61, 0x66, 0xE9]) [0x02, 0x01, 0x06] =
        Inr ([0x02, 0x01, 0x06]
          @ [int (length (take 29 [0x43, 0x61, 0x66, 0xC3, 0xA9 :: byte])) + 1, 0x09]
          @ map uint (take 29 [0x43, 0x61, 0x66, 0xC3, 0xA9 :: byte]))"
    using t1 [THEN conjunct2, THEN conjunct2, THEN conjunct1, THEN mp, OF conjI [OF a b],
        THEN conjunct1] .
  then have c: "add_local_name (Some [0x43, 0x61, 0x66, 0xE9]) [0x02, 0x01, 0x06]
     = Inr [0x02, 0x01, 0x06, 0x06, 0x09, 0x43, 0x61, 0x66, 0xC3, 0xA9]"
    by simp
  have e: "device.name nameless_device = None \<or> device.name nameless_device = Some []"
    by simp
  have "build_ad_data nameless_device (plain_advertisement (- 70))
     = add_manufacturer_data (manufacturer_data (plain_advertisement (- 70)))
          (add_service_data (service_data (plain_advertisement (- 70)))
            (add_service_uuids (service_uuids (plain_advertisement (- 70))) [0x02, 0x01, 0x06]))"
    using t1 [THEN conjunct2, THEN conjunct2, THEN conjunct2, THEN mp, OF e] .
  then have d: "build_ad_data nameless_device (plain_advertisement (- 70))
      = Inr [0x02, 0x01, 0x06]"
    by (simp add: add_service_data_def add_service_uuids_def)
  have a': "lit ''Test'' \<noteq> []" by (simp add: lit_def)
  have b': "encode_utf8 (lit ''Test'') = Inr [0x54, 0x65, 0x73, 0x74]"
    by code_simp
  have n': "device.name test_device = Some (lit ''Test'')" by simp
  note t2 = local_name_element [of "[]" "lit ''Test''" "[0x54, 0x65, 0x73, 0x74]"
      test_device "plain_advertisement (- 42)"]
  have "build_ad_data test_device (plain_advertisement (- 42))
     = add_manufacturer_data (manufacturer_data (plain_advertisement (- 42)))
          (add_service_data (service_data (plain_advertisement (- 42)))
            (add_service_uuids (service_uuids (plain_advertisement (- 42)))
              ([0x02, 0x01, 0x06] @ [int (length (take 29 [0x54, 0x65, 0x73, 0x74 :: byte])) + 1, 0x09]
                @ map uint (take 29 [0x54, 0x65, 0x73, 0x74 :: byte]))))"
    using t2 [THEN conjunct2, THEN conjunct2, THEN conjunct1, THEN mp, OF conjI [OF a' b'],
        THEN conjunct2, THEN conjunct2, THEN conjunct2, THEN mp, OF n'] .
  then have d': "build_ad_data test_device (plain_advertisement (- 42))
     = Inr [0x02, 0x01, 0x06, 0x05, 0x09, 0x54, 0x65, 0x73, 0x74]"
    by (simp add: add_service_data_def add_service_uuids_def)
  show ?thesis by (intro conjI a b c b' d' d)
qed

text \<open>
  C9. For an index that is negative or not below the number of stored packets, and
  so for every index when nothing is stored, \<^verbatim>\<open>replay_packet\<close> takes the way of the
  invalid index: it hands no command to \<^verbatim>\<open>subprocess.run\<close> and leaves the object
  as it is. No other index takes that way.
\<close>

theorem replay_index_out_of_range:
  "(index < 0 \<or> int (length (captured_packets self)) \<le> index \<longrightarrow>
      replay_packet run self index = (self, [], IndexOutOfRange)) \<and>
   (captured_packets self = [] \<longrightarrow> replay_packet run self index = (self, [], IndexOutOfRange)) \<and>
   (0 \<le> index \<and> index < int (length (captured_packets self)) \<longrightarrow>
      snd (snd (replay_packet run self index)) \<noteq> IndexOutOfRange) \<and>
   fst (replay_packet run self index) = self"
  by (auto simp: replay_packet_def Let_def split: run_result.splits)

text \<open>One stored packet: the indices 1 and -1; and the index 0 with nothing stored.\<close>

theorem replay_index_out_of_range_witness:
  "replay_packet (\<lambda>cmd. Completed 0 []) \<lparr>captured_packets = [test_packet noon (- 42)]\<rparr> 1
     = (\<lparr>captured_packets = [test_packet noon (- 42)]\<rparr>, [], IndexOutOfRange) \<and>
   replay_packet (\<lambda>cmd. Completed 0 []) \<lparr>captured_packets = [test_packet noon (- 42)]\<rparr> (- 1)
     = (\<lparr>captured_packets = [test_packet noon (- 42)]\<rparr>, [], IndexOutOfRange) \<and>
   replay_packet (\<lambda>cmd. Completed 0 []) \<lparr>captured_packets = []\<rparr> 0
     = (\<lparr>captured_packets = []\<rparr>, [], IndexOutOfRange) \<and>
   snd (snd (replay_packet (\<lambda>cmd. Completed 0 [])
     \<lparr>captured_packets = [test_packet noon (- 42)]\<rparr> 0)) \<noteq> IndexOutOfRange"
proof -
  let ?one = "\<lparr>captured_packets = [test_packet noon (- 42)]\<rparr>"
  let ?run = "\<lambda>cmd :: str list. Completed 0 []"
  note t1 = replay_index_out_of_range [of 1 ?one ?run]
  note t2 = replay_index_out_of_range [of "- 1" ?one ?run]
  note t3 = replay_index_out_of_range [of 0 "\<lparr>captured_packets = []\<rparr>" ?run]
  note t4 = replay_index_out_of_range [of 0 ?one ?run]
  have "replay_packet ?run ?one 1 = (?one, [], IndexOutOfRange)"
    using t1 [THEN conjunct1] by simp
  moreover have "replay_packet ?run ?one (- 1) = (?one, [], IndexOutOfRange)"
    using t2 [THEN conjunct1] by simp
  moreover have "replay_packet ?run \<lparr>captured_packets = []\<rparr> 0
     = (\<lparr>captured_packets = []\<rparr>, [], IndexOutOfRange)"
    using t3 [THEN conjunct2, THEN conjunct1] by simp
  moreover have "snd (snd (replay_packet ?run ?one 0)) \<noteq> IndexOutOfRange"
    using t4 [THEN conjunct2, THEN conjunct2, THEN conjunct1] by simp
  ultimately show ?thesis by blast
qed

text \<open>
  C10. The packet the method returns for a device without a name has the name
  'Unknown', and its raw data are the first 31 bytes of the flags followed by the
  elements of the service UUIDs, of the service data and of the manufacturer data
  only: no element of a local name stands among them. After the callback has taken
  such an observation into a list a capture can hold, a packet with its address and
  raw data is stored, and every stored packet with them has the name 'Unknown',
  whether it was stored now or before. The name of a returned packet is never
  empty, and in a list a capture can hold no name is empty, nor is a name in the
  list of commands made from it.
\<close>

theorem absent_name_stored_as_unknown:
  "(parse_advertisement_data now dev adv = Inr p \<longrightarrow>
      name p \<noteq> [] \<and>
      (device.name dev = None \<longrightarrow>
         name p = lit ''Unknown'' \<and>
         (\<exists>md. map (add_manufacturer_data_item []) (manufacturer_data adv) = map Inr md \<and>
            raw_data p = take 31 ([0x02, 0x01, 0x06]
              @ concat (map (add_service_uuid []) (service_uuids adv))
              @ concat (map (add_service_data_item []) (service_data adv))
              @ concat md)) \<and>
         (reachable self \<and> \<not> filtered_out target_names target_addresses dev \<and>
          detection_callback target_names target_addresses now self dev adv = Inr self' \<longrightarrow>
            (\<exists>q \<in> set (captured_packets self').
               address q = address p \<and> raw_data q = raw_data p) \<and>
            (\<forall>q \<in> set (captured_packets self').
               address q = address p \<and> raw_data q = raw_data p \<longrightarrow>
               name q = lit ''Unknown'')))) \<and>
   (reachable self \<longrightarrow>
      (\<forall>q \<in> set (captured_packets self). name q \<noteq> []) \<and>
      (\<forall>(n, a, c) \<in> set (get_hci_commands self). n \<noteq> []))"
proof -
  have 1: "name p \<noteq> []" if "parse_advertisement_data now dev adv = Inr p"
    using parse_advertisement_data_name_nonempty [OF that] .
  have 2: "name p = lit ''Unknown''"
    if "parse_advertisement_data now dev adv = Inr p" "device.name dev = None"
    using parse_advertisement_data_fields(4) [OF that(1)] that(2) by simp
  have 3: "\<exists>md. map (add_manufacturer_data_item []) (manufacturer_data adv) = map Inr md \<and>
            raw_data p = take 31 ([0x02, 0x01, 0x06]
              @ concat (map (add_service_uuid []) (service_uuids adv))
              @ concat (map (add_service_data_item []) (service_data adv))
              @ concat md)"
    if p: "parse_advertisement_data now dev adv = Inr p" and n: "device.name dev = None"
  proof -
    from parse_advertisement_data_raw [OF p] obtain ad where
      ad: "build_ad_data dev adv = Inr ad" and raw: "raw_data p = take 31 ad"
      by blast
    from build_ad_data_elements [OF ad] obtain nm md where
      nm: "add_local_name (device.name dev) [] = Inr nm" and
      md: "map (add_manufacturer_data_item []) (manufacturer_data adv) = map Inr md" and
      ad_eq: "ad = [0x02, 0x01, 0x06] @ nm
                @ concat (map (add_service_uuid []) (service_uuids adv))
                @ concat (map (add_service_data_item []) (service_data adv))
                @ concat md"
      by blast
    have "nm = []" using nm n by (simp add: add_local_name_absent)
    then show ?thesis using md ad_eq raw by auto
  qed
  have 4: "(\<exists>q \<in> set (captured_packets self').
               address q = address p \<and> raw_data q = raw_data p) \<and>
            (\<forall>q \<in> set (captured_packets self').
               address q = address p \<and> raw_data q = raw_data p \<longrightarrow>
               name q = lit ''Unknown'')"
    if p: "parse_advertisement_data now dev adv = Inr p" and n: "device.name dev = None"
      and r: "reachable self \<and> \<not> filtered_out target_names target_addresses dev \<and>
          detection_callback target_names target_addresses now self dev adv = Inr self'"
  proof -
    have d: "detection_callback target_names target_addresses now self dev adv = Inr self'"
      using r by blast
    have r': "reachable self'" using reachable_step [OF _ d] r by blast
    have absent: "\<not> (4 < length (raw_data p) \<and> raw_data p ! 4 = 0x09)"
      using parse_advertisement_data_absent_name [OF p] n by blast
    have "name q = lit ''Unknown''"
      if "q \<in> set (captured_packets self')" "raw_data q = raw_data p" for q
      using reachable_name_type [OF r'] that absent by auto
    then have all: "\<forall>q \<in> set (captured_packets self').
               address q = address p \<and> raw_data q = raw_data p \<longrightarrow>
               name q = lit ''Unknown''"
      by blast
    from d have ex: "\<exists>q \<in> set (captured_packets self').
               address q = address p \<and> raw_data q = raw_data p"
    proof (cases rule: detection_callback_cases)
      case filtered
      then show ?thesis using r by blast
    next
      case (appended packet)
      then have "packet = p" using p by simp
      then show ?thesis using appended(4) by simp
    next
      case (updated packet i)
      let ?q = "(captured_packets self ! i)\<lparr>timestamp := timestamp packet, rssi := rssi packet\<rparr>"
      have "packet = p" using updated(2) p by simp
      then have "address ?q = address p \<and> raw_data ?q = raw_data p"
        using updated(4,5) by simp
      moreover have "?q \<in> set (captured_packets self')"
        unfolding updated(6) using updated(3) by (rule set_update_memI)
      ultimately show ?thesis by blast
    qed
    show ?thesis using ex all by blast
  qed
  have 5: "(\<forall>q \<in> set (captured_packets self). name q \<noteq> []) \<and>
      (\<forall>(n, a, c) \<in> set (get_hci_commands self). n \<noteq> [])"
    if "reachable self"
  proof -
    have "\<forall>q \<in> set (captured_packets self). name q \<noteq> []"
      by (rule reachable_packets [OF that])
        (simp_all add: parse_advertisement_data_name_nonempty)
    then show ?thesis by (auto simp: get_hci_commands_def)
  qed
  show ?thesis using 1 2 3 4 5 by blast
qed

text \<open>
  The device without a name that advertises the battery service, seen at noon and
  seen again a minute later.
\<close>

theorem absent_name_stored_as_unknown_witness:
  "device.name nameless_device = None \<and>
   parse_advertisement_data (lit ''2024-05-01 12:01:00'') nameless_device
       (battery_advertisement (- 65))
     = Inr (battery_packet (lit ''2024-05-01 12:01:00'') (- 65)) \<and>
   reachable \<lparr>captured_packets = [battery_packet noon (- 70)]\<rparr> \<and>
   \<not> filtered_out None None nameless_device \<and>
   detection_callback None None (lit ''2024-05-01 12:01:00'')
       \<lparr>captured_packets = [battery_packet noon (- 70)]\<rparr>
       nameless_device (battery_advertisement (- 65))
     = Inr \<lparr>captured_packets = [battery_packet (lit ''2024-05-01 12:01:00'') (- 65)]\<rparr> \<and>
   list_all (\<lambda>q. raw_data q = [0x02, 0x01, 0x06, 0x03, 0x03, 0x0F, 0x18] \<longrightarrow>
               name q = lit ''Unknown'')
     [battery_packet (lit ''2024-05-01 12:01:00'') (- 65)] \<and>
   list_all (\<lambda>q. name q \<noteq> []) [battery_packet (lit ''2024-05-01 12:01:00'') (- 65)]"
proof -
  let ?later = "lit ''2024-05-01 12:01:00''"
  let ?empty = "\<lparr>captured_packets = []\<rparr>"
  let ?first = "\<lparr>captured_packets = [battery_packet noon (- 70)]\<rparr>"
  let ?second = "\<lparr>captured_packets = [battery_packet ?later (- 65)]\<rparr>"
  have n: "device.name nameless_device = None"
    by simp
  have h: "parse_advertisement_data ?later nameless_device (battery_advertisement (- 65))
      = Inr (battery_packet ?later (- 65))"
    by code_simp
  have f: "\<not> filtered_out None None nameless_device"
    by (simp add: filtered_out_def)
  have s1: "detection_callback None None noon ?empty nameless_device (battery_advertisement (- 70))
      = Inr ?first"
    by code_simp
  have r: "reachable ?first"
    using reachable_step [OF reachable_init s1] .
  have d: "detection_callback None None ?later ?first nameless_device (battery_advertisement (- 65))
      = Inr ?second"
    by code_simp
  note t = absent_name_stored_as_unknown
    [of ?later nameless_device "battery_advertisement (- 65)" "battery_packet ?later (- 65)"
      ?first None None ?second]
  note t1 = t [THEN conjunct1, THEN mp, OF h, THEN conjunct2, THEN mp, OF n]
  have "\<forall>q \<in> set (captured_packets ?second).
      address q = address (battery_packet ?later (- 65)) \<and>
      raw_data q = raw_data (battery_packet ?later (- 65)) \<longrightarrow> name q = lit ''Unknown''"
    using t1 [THEN conjunct2, THEN conjunct2, THEN mp, OF conjI [OF r conjI [OF f d]],
        THEN conjunct2] .
  then have l: "list_all (\<lambda>q. raw_data q = [0x02, 0x01, 0x06, 0x03, 0x03, 0x0F, 0x18] \<longrightarrow>
               name q = lit ''Unknown'') [battery_packet ?later (- 65)]"
    by simp
  have "\<forall>q \<in> set (captured_packets ?second). name q \<noteq> []"
    using absent_name_stored_as_unknown
      [of ?later nameless_device "battery_advertisement (- 65)" "battery_packet ?later (- 65)"
        ?second None None ?second,
        THEN conjunct2, THEN mp, OF reachable_step [OF r d], THEN conjunct1] .
  then have e: "list_all (\<lambda>q. name q \<noteq> []) [battery_packet ?later (- 65)]"
    by simp
  show ?thesis by (intro conjI n h r f d l e)
qed

end
